theory Spec2Isabelle
  imports Main
begin

section \<open>The ingress sub command of apisix-ingress-controller\<close>

text \<open>
  A model of \<^verbatim>\<open>cmd/ingress/ingress.go\<close>: the helpers \<^verbatim>\<open>dief\<close> and
  \<^verbatim>\<open>waitForSignal\<close> and the \<^verbatim>\<open>Run\<close> closure of \<^verbatim>\<open>NewIngressCommand\<close>.
  The closure runs one main goroutine and spawns three more with \<^verbatim>\<open>go\<close>. The model is
  an interleaving semantics: a process state, one function per goroutine that performs
  its next statement, and an event for every choice that the Go scheduler, the clock or
  the operating system makes. Statements of the main goroutine are named after the line
  of the source file they start at. A statement is one step: a call of \<^verbatim>\<open>dief\<close>
  prints and exits at once, and no other goroutine runs in between.
\<close>

subsection \<open>Configuration\<close>

text \<open>The fields of \<^verbatim>\<open>config.Config\<close> that the flags of lines 172-179 populate.\<close>

record kubernetes_config =
  Kubeconfig :: string
  ResyncInterval :: int

record apisix_config =
  BaseURL :: string
  AdminKey :: string

record config =
  LogLevel :: string
  LogOutput :: string
  HTTPListen :: string
  EnableProfiling :: bool
  Kubernetes :: kubernetes_config
  APISIX :: apisix_config

text \<open>\<^verbatim>\<open>time.Second\<close> and \<^verbatim>\<open>time.Minute\<close>, in nanoseconds as \<^verbatim>\<open>time.Duration\<close> counts.\<close>

definition Second :: nat where
  "Second = 1000000000"

definition Minute :: nat where
  "Minute = 60 * Second"

text \<open>The configuration the flags give when none is passed (the defaults of lines 172-179).\<close>

definition flag_defaults :: config where
  "flag_defaults =
     \<lparr>LogLevel = ''info'', LogOutput = ''stderr'', HTTPListen = '':8080'',
      EnableProfiling = True,
      Kubernetes = \<lparr>Kubeconfig = [], ResyncInterval = int Minute\<rparr>,
      APISIX = \<lparr>BaseURL = [], AdminKey = []\<rparr>\<rparr>"

subsection \<open>Collaborators\<close>

text \<open>
  The packages the command calls are not part of this file. Each call is a parameter:
  an error is the string \<^verbatim>\<open>%s\<close> prints for it, \<open>Inl\<close> or \<open>Some\<close> when the call
  returns \<^verbatim>\<open>err != nil\<close>. \<open>default_exits\<close> is the disposition of the Go runtime for a
  signal nobody has subscribed to: whether it ends the process.
\<close>

record env =
  NewConfigFromFile :: "string \<Rightarrow> string + config"
  NewLogger :: "string \<Rightarrow> string \<Rightarrow> string option"
  MarshalIndent :: "config \<Rightarrow> string + string"
  InitInformer :: "config \<Rightarrow> string option"
  NewServer :: "config \<Rightarrow> string option"
  Getenv :: "string \<Rightarrow> string"
  default_exits :: "nat \<Rightarrow> bool"

subsection \<open>Process state\<close>

datatype status = Running | Exited nat | Killed nat

datatype chan = Open | Closed

datatype kind = Endpoints | ApisixRoute | ApisixUpstream | ApisixService | ApisixTLS

datatype factory = CoreSharedInformerFactory | SharedInformerFactory

datatype goroutine = GoCore | GoDelayed | GoServer

text \<open>What the process does that another component can observe, in the order it happens.\<close>

datatype action =
    Info string
  | Infof_signal nat
  | SetBaseUrl string
  | ResetLeader string string
  | Register kind
  | Go goroutine
  | Sleep nat
  | Start factory chan
  | Notify "nat list"
  | CloseStop

datatype task = NotSpawned | Runnable | Sleeping nat | Finished

text \<open>The next statement of the main goroutine, by source line.\<close>

datatype pc =
    L83 | L90 | L100 | L107 | L114 | L137 | L138 | L141 | L143 | L145 | L147
  | L149 | L154 | L160 | L48 | L50 | L52 | L167 | L168 | Returned

text \<open>
  \<open>cfg\<close> and \<open>configPath\<close> are the variables the closure captures; \<open>stop\<close> is the
  channel made at line 126, the only one the goroutines share; \<open>notified\<close> and
  \<open>sigCh\<close> are the subscription and the one-element buffer of \<^verbatim>\<open>waitForSignal\<close>;
  \<open>now\<close> is the clock, in nanoseconds since the closure was entered.
\<close>

record proc =
  status :: status
  pc :: pc
  configPath :: string
  cfg :: config
  now :: nat
  stop :: chan
  notified :: bool
  sigCh :: "nat list"
  core :: task
  delayed :: task
  server :: task
  trace :: "(nat \<times> action) list"
  stderr :: string

definition init :: "string \<Rightarrow> config \<Rightarrow> proc" where
  "init p c =
     \<lparr>status = Running, pc = L83, configPath = p, cfg = c, now = 0, stop = Open,
      notified = False, sigCh = [], core = NotSpawned, delayed = NotSpawned,
      server = NotSpawned, trace = [], stderr = []\<rparr>"

definition emit :: "action \<Rightarrow> proc \<Rightarrow> proc" where
  "emit a st = st\<lparr>trace := trace st @ [(now st, a)]\<rparr>"

definition goto :: "pc \<Rightarrow> proc \<Rightarrow> proc" where
  "goto l st = st\<lparr>pc := l\<rparr>"

definition acts :: "proc \<Rightarrow> action list" where
  "acts st = map snd (trace st)"

subsection \<open>dief\<close>

definition HasSuffix :: "string \<Rightarrow> string \<Rightarrow> bool" where
  "HasSuffix s suffix =
     (length suffix \<le> length s \<and> drop (length s - length suffix) s = suffix)"

text \<open>
  \<^verbatim>\<open>fmt.Fprintf\<close> for the templates of this file: each holds the verb \<^verbatim>\<open>%s\<close> once
  and is called with one argument, which replaces the verb.
\<close>

fun Sprintf :: "string \<Rightarrow> string \<Rightarrow> string" where
  "Sprintf (c # d # cs) a =
     (if c = CHR ''%'' \<and> d = CHR ''s'' then a @ cs else c # Sprintf (d # cs) a)"
| "Sprintf cs a = cs"

text \<open>Lines 38-44: complete the template with a newline, print to stderr, exit with 1.\<close>

definition dief :: "string \<Rightarrow> string \<Rightarrow> proc \<Rightarrow> proc" where
  "dief template arg st =
     (let template' = (if \<not> HasSuffix template [CHR 0x0A] then template @ [CHR 0x0A]
                       else template)
      in st\<lparr>stderr := stderr st @ Sprintf template' arg, status := Exited 1\<rparr>)"

subsection \<open>waitForSignal\<close>

definition SIGINT :: nat where
  "SIGINT = 2"

definition SIGTERM :: nat where
  "SIGTERM = 15"

text \<open>
  Go's \<^verbatim>\<open>close\<close>: closing an open channel closes it; closing a closed channel is the
  run-time panic \<^verbatim>\<open>close of closed channel\<close>, here \<open>None\<close>.
\<close>

definition close_chan :: "chan \<Rightarrow> chan option" where
  "close_chan c = (case c of Open \<Rightarrow> Some Closed | Closed \<Rightarrow> None)"

text \<open>Line 52, \<^verbatim>\<open>close(stopCh)\<close>. An unrecovered panic ends a Go process with status 2.\<close>

definition close_stopCh :: "proc \<Rightarrow> proc" where
  "close_stopCh st =
     (case close_chan (stop st) of
        Some c \<Rightarrow> emit CloseStop (st\<lparr>stop := c\<rparr>)
      | None \<Rightarrow> st\<lparr>stderr := stderr st @ ''panic: close of closed channel'',
                   status := Exited 2\<rparr>)"

text \<open>
  Lines 46-53, one statement a step. Line 48 subscribes \<open>sigCh\<close> to the two signals;
  the receive of line 50 blocks while the buffer is empty (the step changes nothing).
\<close>

definition waitForSignal :: "proc \<Rightarrow> proc" where
  "waitForSignal st =
     (case pc st of
        L48 \<Rightarrow> goto L50 (emit (Notify [SIGINT, SIGTERM]) (st\<lparr>notified := True, sigCh := []\<rparr>))
      | L50 \<Rightarrow> (case sigCh st of
                  [] \<Rightarrow> st
                | sig # rest \<Rightarrow> goto L52 (emit (Infof_signal sig) (st\<lparr>sigCh := rest\<rparr>)))
      | L52 \<Rightarrow> (let st' = close_stopCh st
                in if status st' = Running then goto L167 st' else st')
      | _ \<Rightarrow> st)"

text \<open>
  The operating system delivers signal \<open>s\<close>. \<^verbatim>\<open>signal.Notify\<close> relays a subscribed
  signal to the channel without blocking: it is dropped when the buffer of size 1 is
  full. Any other signal, and any signal before line 48 has run, is left to the runtime.
\<close>

definition deliver :: "env \<Rightarrow> nat \<Rightarrow> proc \<Rightarrow> proc" where
  "deliver e s st =
     (if notified st \<and> s \<in> {SIGINT, SIGTERM}
      then (if length (sigCh st) < 1 then st\<lparr>sigCh := sigCh st @ [s]\<rparr> else st)
      else if default_exits e s then st\<lparr>status := Killed s\<rparr> else st)"

subsection \<open>The Run closure of NewIngressCommand\<close>

text \<open>Lines 83-89: the configuration the run uses, or the error of the file loader.\<close>

definition load_config :: "env \<Rightarrow> string \<Rightarrow> config \<Rightarrow> string + config" where
  "load_config e p c = (if p \<noteq> [] then NewConfigFromFile e p else Inr c)"

text \<open>Lines 114-118: the pod's namespace, \<^verbatim>\<open>default\<close> when the variable is empty.\<close>

definition podNamespace :: "env \<Rightarrow> string" where
  "podNamespace e =
     (if Getenv e ''POD_NAMESPACE'' = [] then ''default'' else Getenv e ''POD_NAMESPACE'')"

text \<open>The delay of line 150, \<^verbatim>\<open>time.Duration(10) * time.Second\<close>.\<close>

definition warm_up :: nat where
  "warm_up = 10 * Second"

text \<open>
  Modelled from the spec: the caller of \<^verbatim>\<open>Run\<close> (the command's \<^verbatim>\<open>Execute\<close> and the
  program's \<^verbatim>\<open>main\<close>) is not in the source; the spec gives exit code 0 when the main
  flow returns normally. \<open>Returned\<close> is that return.
\<close>

definition return_from_Run :: "proc \<Rightarrow> proc" where
  "return_from_Run st = (goto Returned st)\<lparr>status := Exited 0\<rparr>"

text \<open>
  The next statement of the main goroutine. When \<^verbatim>\<open>json.MarshalIndent\<close> fails it
  returns no data, and line 102 prints the data, not the error: the argument of that
  \<^verbatim>\<open>dief\<close> is the empty string.
\<close>

definition Run :: "env \<Rightarrow> proc \<Rightarrow> proc" where
  "Run e st =
     (case pc st of
        L83 \<Rightarrow> (case load_config e (configPath st) (cfg st) of
                  Inl err \<Rightarrow> dief ''failed to initialize configuration: %s'' err st
                | Inr c \<Rightarrow> goto L90 (st\<lparr>cfg := c\<rparr>))
      | L90 \<Rightarrow> (case NewLogger e (LogLevel (cfg st)) (LogOutput (cfg st)) of
                  Some err \<Rightarrow> dief ''failed to initialize logging: %s'' err st
                | None \<Rightarrow> goto L100 (emit (Info ''apisix ingress controller started'') st))
      | L100 \<Rightarrow> (case MarshalIndent e (cfg st) of
                   Inl err \<Rightarrow> dief ''failed to show configuration: %s'' [] st
                 | Inr data \<Rightarrow> goto L107 (emit (Info (''use configuration'' @ [CHR 0x0A] @ data)) st))
      | L107 \<Rightarrow> (let st' = emit (SetBaseUrl (BaseURL (APISIX (cfg st)))) st
                 in case InitInformer e (cfg st) of
                      Some err \<Rightarrow> dief ''failed to initialize kube informers: %s'' err st'
                    | None \<Rightarrow> goto L114 st')
      | L114 \<Rightarrow> goto L137 (emit (ResetLeader (Getenv e ''POD_NAME'') (podNamespace e)) st)
      | L137 \<Rightarrow> goto L138 (emit (Register Endpoints) st)
      | L138 \<Rightarrow> goto L141 (emit (Go GoCore) (st\<lparr>core := Runnable\<rparr>))
      | L141 \<Rightarrow> goto L143 (emit (Register ApisixRoute) st)
      | L143 \<Rightarrow> goto L145 (emit (Register ApisixUpstream) st)
      | L145 \<Rightarrow> goto L147 (emit (Register ApisixService) st)
      | L147 \<Rightarrow> goto L149 (emit (Register ApisixTLS) st)
      | L149 \<Rightarrow> goto L154 (emit (Go GoDelayed) (st\<lparr>delayed := Runnable\<rparr>))
      | L154 \<Rightarrow> (case NewServer e (cfg st) of
                   Some err \<Rightarrow> dief ''failed to create API Server: %s'' err st
                 | None \<Rightarrow> goto L160 st)
      | L160 \<Rightarrow> goto L48 (emit (Go GoServer) (st\<lparr>server := Runnable\<rparr>))
      | L48 \<Rightarrow> waitForSignal st
      | L50 \<Rightarrow> waitForSignal st
      | L52 \<Rightarrow> waitForSignal st
      | L167 \<Rightarrow> goto L168 (emit (Info ''apisix ingress controller exited'') st)
      | L168 \<Rightarrow> return_from_Run st
      | Returned \<Rightarrow> st)"

text \<open>Line 138, \<^verbatim>\<open>go c.CoreSharedInformerFactory.Start(stop)\<close>: the goroutine's only call.\<close>

definition core_goroutine :: "proc \<Rightarrow> proc" where
  "core_goroutine st =
     (case core st of
        Runnable \<Rightarrow> emit (Start CoreSharedInformerFactory (stop st)) (st\<lparr>core := Finished\<rparr>)
      | _ \<Rightarrow> st)"

text \<open>
  Lines 149-152. \<^verbatim>\<open>time.Sleep\<close> pauses the goroutine for at least the duration: it
  stays asleep while the clock is before the wake-up time. Then it calls
  \<^verbatim>\<open>c.SharedInformerFactory.Start(stop)\<close>, whatever the state of \<open>stop\<close>.
\<close>

definition delayed_goroutine :: "proc \<Rightarrow> proc" where
  "delayed_goroutine st =
     (case delayed st of
        Runnable \<Rightarrow> emit (Sleep warm_up) (st\<lparr>delayed := Sleeping (now st + warm_up)\<rparr>)
      | Sleeping w \<Rightarrow>
          (if w \<le> now st
           then emit (Start SharedInformerFactory (stop st)) (st\<lparr>delayed := Finished\<rparr>)
           else st)
      | _ \<Rightarrow> st)"

text \<open>Lines 160-164: \<^verbatim>\<open>srv.Run(stop)\<close> returns \<open>r\<close>; an error goes to \<^verbatim>\<open>dief\<close>.\<close>

definition server_goroutine :: "string option \<Rightarrow> proc \<Rightarrow> proc" where
  "server_goroutine r st =
     (case server st of
        Runnable \<Rightarrow> (case r of
                       Some err \<Rightarrow> dief ''failed to launch API Server: %s'' err st
                     | None \<Rightarrow> st\<lparr>server := Finished\<rparr>)
      | _ \<Rightarrow> st)"

subsection \<open>Executions\<close>

datatype event =
    MainStep
  | CoreStep
  | DelayedStep
  | ServerReturn "string option"
  | Signal nat
  | Advance nat

text \<open>A process that has exited does nothing more.\<close>

definition step :: "env \<Rightarrow> event \<Rightarrow> proc \<Rightarrow> proc" where
  "step e ev st =
     (if status st \<noteq> Running then st
      else case ev of
        MainStep \<Rightarrow> Run e st
      | CoreStep \<Rightarrow> core_goroutine st
      | DelayedStep \<Rightarrow> delayed_goroutine st
      | ServerReturn r \<Rightarrow> server_goroutine r st
      | Signal s \<Rightarrow> deliver e s st
      | Advance d \<Rightarrow> st\<lparr>now := now st + d\<rparr>)"

fun exec :: "env \<Rightarrow> event list \<Rightarrow> proc \<Rightarrow> proc" where
  "exec e [] st = st"
| "exec e (ev # evs) st = exec e evs (step e ev st)"

text \<open>An environment in which every collaborator succeeds and no configuration file exists.\<close>

definition env0 :: env where
  "env0 =
     \<lparr>NewConfigFromFile = (\<lambda>p. Inl ''no such file''),
      NewLogger = (\<lambda>level output. None),
      MarshalIndent = (\<lambda>c. Inr ''{}''),
      InitInformer = (\<lambda>c. None),
      NewServer = (\<lambda>c. None),
      Getenv = (\<lambda>name. []),
      default_exits = (\<lambda>s. True)\<rparr>"

text \<open>Fourteen statements take the main goroutine from line 83 to the subscription of line 48.\<close>

definition startup :: "event list" where
  "startup =
     [MainStep, MainStep, MainStep, MainStep, MainStep, MainStep, MainStep,
      MainStep, MainStep, MainStep, MainStep, MainStep, MainStep, MainStep]"

subsection \<open>Invariants of the main goroutine\<close>

text \<open>The number of statements the main goroutine has performed when it stands at one.\<close>

fun progress :: "pc \<Rightarrow> nat" where
  "progress L83 = 0" | "progress L90 = 1" | "progress L100 = 2" | "progress L107 = 3"
| "progress L114 = 4" | "progress L137 = 5" | "progress L138 = 6" | "progress L141 = 7"
| "progress L143 = 8" | "progress L145 = 9" | "progress L147 = 10" | "progress L149 = 11"
| "progress L154 = 12" | "progress L160 = 13" | "progress L48 = 14" | "progress L50 = 15"
| "progress L52 = 16" | "progress L167 = 17" | "progress L168 = 18" | "progress Returned = 19"

text \<open>
  What the place of the main goroutine says about the rest of the state: which watchers
  are registered, which goroutines are spawned, whether the signals are subscribed and
  \<open>stop\<close> is closed, and how the process can have exited.
\<close>

definition main_inv :: "proc \<Rightarrow> bool" where
  "main_inv st \<longleftrightarrow>
     (6 \<le> progress (pc st) \<longrightarrow> Register Endpoints \<in> set (acts st)) \<and>
     (8 \<le> progress (pc st) \<longrightarrow> Register ApisixRoute \<in> set (acts st)) \<and>
     (9 \<le> progress (pc st) \<longrightarrow> Register ApisixUpstream \<in> set (acts st)) \<and>
     (10 \<le> progress (pc st) \<longrightarrow> Register ApisixService \<in> set (acts st)) \<and>
     (11 \<le> progress (pc st) \<longrightarrow> Register ApisixTLS \<in> set (acts st)) \<and>
     (core st \<noteq> NotSpawned \<longleftrightarrow> 7 \<le> progress (pc st)) \<and>
     (delayed st \<noteq> NotSpawned \<longleftrightarrow> 12 \<le> progress (pc st)) \<and>
     (server st \<noteq> NotSpawned \<longleftrightarrow> 14 \<le> progress (pc st)) \<and>
     (notified st \<longleftrightarrow> 15 \<le> progress (pc st)) \<and>
     (stop st = Closed \<longleftrightarrow> 17 \<le> progress (pc st)) \<and>
     set (sigCh st) \<subseteq> {SIGINT, SIGTERM} \<and>
     (16 \<le> progress (pc st) \<longrightarrow>
        Infof_signal SIGINT \<in> set (acts st) \<or> Infof_signal SIGTERM \<in> set (acts st)) \<and>
     (CloseStop \<in> set (acts st) \<longleftrightarrow> 17 \<le> progress (pc st)) \<and>
     (18 \<le> progress (pc st) \<longrightarrow> Info ''apisix ingress controller exited'' \<in> set (acts st)) \<and>
     (status st = Exited 0 \<longleftrightarrow> pc st = Returned) \<and>
     (\<forall>n. status st = Exited n \<longrightarrow> n \<le> 1) \<and>
     (status st \<noteq> Exited 1 \<longrightarrow> stderr st = [])"

subsection \<open>Concrete inputs\<close>

text \<open>A configuration file that differs from the flags' defaults, and an environment that holds it.\<close>

definition file_config :: config where
  "file_config = flag_defaults\<lparr>LogLevel := ''debug'', HTTPListen := '':9090''\<rparr>"

definition env_file :: env where
  "env_file =
     env0\<lparr>NewConfigFromFile :=
            (\<lambda>p. if p = ''conf.yaml'' then Inr file_config else Inl ''no such file'')\<rparr>"

subsection \<open>Properties of traces\<close>

text \<open>
  The watchers each factory delivers events to. Line 134 takes the endpoints informer from
  the core factory; the four custom resources are those of the factory of line 125, built
  from the APISIX client set.
\<close>

definition watchers :: "factory \<Rightarrow> kind list" where
  "watchers f =
     (case f of
        CoreSharedInformerFactory \<Rightarrow> [Endpoints]
      | SharedInformerFactory \<Rightarrow> [ApisixRoute, ApisixUpstream, ApisixService, ApisixTLS])"

text \<open>No factory is started before each of its watchers has been registered.\<close>

definition registered_first :: "(nat \<times> action) list \<Rightarrow> bool" where
  "registered_first tr \<longleftrightarrow>
     (\<forall>i<length tr. \<forall>f ch. snd (tr ! i) = Start f ch \<longrightarrow>
        (\<forall>k\<in>set (watchers f). \<exists>j<i. snd (tr ! j) = Register k))"

text \<open>
  Time stamps are in the past; the delayed goroutine sleeps for \<open>warm_up\<close> after it was
  spawned, and starts its factory no earlier than the end of that sleep.
\<close>

definition timing_inv :: "proc \<Rightarrow> bool" where
  "timing_inv st \<longleftrightarrow>
     (\<forall>t a. (t, a) \<in> set (trace st) \<longrightarrow> t \<le> now st) \<and>
     (delayed st \<noteq> NotSpawned \<longrightarrow> (\<exists>tg. (tg, Go GoDelayed) \<in> set (trace st))) \<and>
     (\<forall>t d. (t, Sleep d) \<in> set (trace st) \<longrightarrow>
        d = warm_up \<and> (\<exists>tg\<le>t. (tg, Go GoDelayed) \<in> set (trace st))) \<and>
     (\<forall>w. delayed st = Sleeping w \<longrightarrow>
        (\<exists>t0. (t0, Sleep warm_up) \<in> set (trace st) \<and> w = t0 + warm_up)) \<and>
     (\<forall>t ch. (t, Start SharedInformerFactory ch) \<in> set (trace st) \<longrightarrow>
        (\<exists>t0. (t0, Sleep warm_up) \<in> set (trace st) \<and> t0 + warm_up \<le> t))"

text \<open>The delayed goroutine has finished exactly when it has started the shared factory.\<close>

definition start_inv :: "proc \<Rightarrow> bool" where
  "start_inv st \<longleftrightarrow>
     (delayed st = Finished \<longleftrightarrow>
        (\<exists>t ch. (t, Start SharedInformerFactory ch) \<in> set (trace st)))"

subsection \<open>Schedules\<close>

text \<open>
  After the start-up, the core goroutine starts its factory; the delayed goroutine goes to
  sleep, the warm-up time passes, and it starts the shared factory.
\<close>

definition sched_start :: "event list" where
  "sched_start = startup @ [CoreStep, DelayedStep, Advance warm_up, DelayedStep]"

text \<open>
  The main goroutine reaches the wait of line 50 and the delayed goroutine goes to sleep.
  One nanosecond before the sleep ends, SIGTERM arrives; the main goroutine receives it
  and closes \<open>stop\<close>. The sleep ends before the main goroutine has returned:
  \<open>sched_wait\<close> stops there, \<open>sched_cancel\<close> lets the delayed goroutine run.
\<close>

definition sched_wait :: "event list" where
  "sched_wait =
     startup @ [MainStep, DelayedStep, Advance (warm_up - 1), Signal SIGTERM,
                MainStep, MainStep, Advance 1]"

definition sched_cancel :: "event list" where
  "sched_cancel = sched_wait @ [DelayedStep]"

text \<open>The start-up and the subscription of line 48: the main goroutine waits at line 50.\<close>

definition sched_ready :: "event list" where
  "sched_ready = startup @ [MainStep]"

subsection \<open>Fatal failures\<close>

text \<open>The texts \<^verbatim>\<open>dief\<close> is called with in this file, up to the verb.\<close>

definition diagnostics :: "string list" where
  "diagnostics =
     [''failed to initialize configuration: '', ''failed to initialize logging: '',
      ''failed to show configuration: '', ''failed to initialize kube informers: '',
      ''failed to create API Server: '', ''failed to launch API Server: '']"

text \<open>
  The next statement of the main goroutine is a collaborator call that returns an error:
  the five \<^verbatim>\<open>if err != nil\<close> of lines 85, 94, 101, 108 and 155.
\<close>

definition fatal :: "env \<Rightarrow> proc \<Rightarrow> bool" where
  "fatal e st =
     (case pc st of
        L83 \<Rightarrow> (case load_config e (configPath st) (cfg st) of Inl err \<Rightarrow> True | Inr c \<Rightarrow> False)
      | L90 \<Rightarrow> NewLogger e (LogLevel (cfg st)) (LogOutput (cfg st)) \<noteq> None
      | L100 \<Rightarrow> (case MarshalIndent e (cfg st) of Inl err \<Rightarrow> True | Inr data \<Rightarrow> False)
      | L107 \<Rightarrow> InitInformer e (cfg st) \<noteq> None
      | L154 \<Rightarrow> NewServer e (cfg st) \<noteq> None
      | _ \<Rightarrow> False)"

text \<open>
  Nothing of the start-up has happened: nothing was logged, registered, spawned or
  subscribed, and the main goroutine has not passed the construction of the logger.
\<close>

definition no_startup :: "proc \<Rightarrow> bool" where
  "no_startup st \<longleftrightarrow>
     trace st = [] \<and> core st = NotSpawned \<and> delayed st = NotSpawned \<and>
     server st = NotSpawned \<and> \<not> notified st \<and> progress (pc st) \<le> 1"

text \<open>
  The state of a run whose start-up fails at statement \<open>l\<close> with diagnostic \<open>msg\<close>:
  nothing was started, and either the process has exited with code 1 at \<open>l\<close> with
  that diagnostic on the error stream, or it has not exited and the stream is empty.
\<close>

definition failed_at :: "pc \<Rightarrow> string \<Rightarrow> proc \<Rightarrow> bool" where
  "failed_at l msg st \<longleftrightarrow>
     no_startup st \<and>
     (status st = Exited 1 \<and> pc st = l \<and> stderr st = msg \<or>
      (\<forall>n. status st \<noteq> Exited n) \<and> stderr st = [])"

text \<open>An environment in which the logger cannot be built.\<close>

definition env_nolog :: env where
  "env_nolog = env0\<lparr>NewLogger := (\<lambda>level output. Some ''unrecognized level'')\<rparr>"

subsection \<open>The order of the start-up\<close>

text \<open>The registrations and the \<^verbatim>\<open>go\<close> statements, in the order of lines 137-160.\<close>

fun is_startup :: "action \<Rightarrow> bool" where
  "is_startup (Register k) = True"
| "is_startup (Go g) = True"
| "is_startup a = False"

definition startup_order :: "action list" where
  "startup_order =
     [Register Endpoints, Go GoCore, Register ApisixRoute, Register ApisixUpstream,
      Register ApisixService, Register ApisixTLS, Go GoDelayed, Go GoServer]"

text \<open>How many of them the main goroutine has performed when it stands at a statement.\<close>

fun started :: "pc \<Rightarrow> nat" where
  "started L83 = 0" | "started L90 = 0" | "started L100 = 0" | "started L107 = 0"
| "started L114 = 0" | "started L137 = 0" | "started L138 = 1" | "started L141 = 2"
| "started L143 = 3" | "started L145 = 4" | "started L147 = 5" | "started L149 = 6"
| "started L154 = 7" | "started L160 = 7" | "started L48 = 8" | "started L50 = 8"
| "started L52 = 8" | "started L167 = 8" | "started L168 = 8" | "started Returned = 8"

text \<open>The state without the delayed goroutine's own state and without the trace.\<close>

definition hide_delayed :: "proc \<Rightarrow> proc" where
  "hide_delayed st = st\<lparr>delayed := NotSpawned, trace := []\<rparr>"

section \<open>Properties of executions\<close>

subsection \<open>Executions and the main invariant\<close>

lemmas prim_defs = emit_def goto_def dief_def close_stopCh_def close_chan_def
  return_from_Run_def acts_def Let_def

lemma exec_append: "exec e (xs @ ys) st = exec e ys (exec e xs st)"
  by (induction xs arbitrary: st) simp_all

lemma exec_invariant:
  assumes "P st" and "\<And>s ev. P s \<Longrightarrow> P (step e ev s)"
  shows "P (exec e evs st)"
  using assms(1)
proof (induction evs arbitrary: st)
  case Nil
  then show ?case by simp
next
  case (Cons ev evs)
  then show ?case by (simp add: assms(2))
qed

lemma step_not_Running: "status st \<noteq> Running \<Longrightarrow> step e ev st = st"
  by (simp add: step_def)

lemma exec_not_Running: "status st \<noteq> Running \<Longrightarrow> exec e evs st = st"
  by (induction evs) (simp_all add: step_not_Running)

lemma main_inv_init: "main_inv (init p c)"
  by (simp add: main_inv_def init_def acts_def)

lemma main_inv_Run: "status st = Running \<Longrightarrow> main_inv st \<Longrightarrow> main_inv (Run e st)"
  unfolding main_inv_def
  by (cases "pc st")
     (auto simp: Run_def waitForSignal_def prim_defs load_config_def
           split: sum.splits option.splits list.splits chan.splits)

lemma main_inv_core: "main_inv st \<Longrightarrow> main_inv (core_goroutine st)"
  unfolding main_inv_def
  by (cases "core st") (auto simp: core_goroutine_def prim_defs)

lemma main_inv_delayed: "main_inv st \<Longrightarrow> main_inv (delayed_goroutine st)"
  unfolding main_inv_def
  by (cases "delayed st") (auto simp: delayed_goroutine_def prim_defs)

lemma main_inv_server: "status st = Running \<Longrightarrow> main_inv st \<Longrightarrow> main_inv (server_goroutine r st)"
  unfolding main_inv_def
  by (cases "server st"; cases r) (auto simp: server_goroutine_def prim_defs)

lemma main_inv_deliver: "status st = Running \<Longrightarrow> main_inv st \<Longrightarrow> main_inv (deliver e s st)"
  unfolding main_inv_def
  by (auto simp: deliver_def prim_defs)

lemma main_inv_step: "main_inv st \<Longrightarrow> main_inv (step e ev st)"
proof (cases "status st = Running")
  case False
  assume "main_inv st"
  with False show ?thesis by (simp add: step_not_Running)
next
  case True
  assume inv: "main_inv st"
  show ?thesis
  proof (cases ev)
    case MainStep
    with True inv show ?thesis by (simp add: step_def main_inv_Run)
  next
    case CoreStep
    with True inv show ?thesis by (simp add: step_def main_inv_core)
  next
    case DelayedStep
    with True inv show ?thesis by (simp add: step_def main_inv_delayed)
  next
    case (ServerReturn r)
    with True inv show ?thesis by (simp add: step_def main_inv_server)
  next
    case (Signal s)
    with True inv show ?thesis by (simp add: step_def main_inv_deliver)
  next
    case (Advance d)
    with True inv show ?thesis by (simp add: step_def main_inv_def acts_def)
  qed
qed

lemma main_inv_exec: "main_inv (exec e evs (init p c))"
  by (rule exec_invariant [OF main_inv_init main_inv_step])


lemma step_pc_cfg:
  "pc st \<noteq> L83 \<Longrightarrow> cfg (step e ev st) = cfg st \<and> pc (step e ev st) \<noteq> L83"
proof (cases ev)
  case MainStep
  assume "pc st \<noteq> L83"
  then have "cfg (Run e st) = cfg st \<and> pc (Run e st) \<noteq> L83"
    by (cases "pc st")
       (auto simp: Run_def waitForSignal_def prim_defs
             split: sum.splits option.splits list.splits chan.splits)
  with MainStep \<open>pc st \<noteq> L83\<close> show ?thesis by (simp add: step_def)
next
  case CoreStep
  assume "pc st \<noteq> L83"
  with CoreStep show ?thesis
    by (cases "core st") (simp_all add: step_def core_goroutine_def prim_defs)
next
  case DelayedStep
  assume "pc st \<noteq> L83"
  with DelayedStep show ?thesis
    by (cases "delayed st") (simp_all add: step_def delayed_goroutine_def prim_defs)
next
  case (ServerReturn r)
  assume "pc st \<noteq> L83"
  with ServerReturn show ?thesis
    by (cases "server st"; cases r) (simp_all add: step_def server_goroutine_def prim_defs)
next
  case (Signal s)
  assume "pc st \<noteq> L83"
  with Signal show ?thesis by (simp add: step_def deliver_def)
next
  case (Advance d)
  assume "pc st \<noteq> L83"
  with Advance show ?thesis by (simp add: step_def)
qed

lemma exec_pc_cfg: "pc st \<noteq> L83 \<Longrightarrow> cfg (exec e evs st) = cfg st"
proof (induction evs arbitrary: st)
  case Nil
  then show ?case by simp
next
  case (Cons ev evs)
  from step_pc_cfg [OF Cons.prems, of e ev]
  have "cfg (step e ev st) = cfg st" and "pc (step e ev st) \<noteq> L83" by simp_all
  with Cons.IH [of "step e ev st"] show ?case by simp
qed

lemma step_no_path:
  "configPath st = [] \<Longrightarrow> cfg (step e ev st) = cfg st \<and> configPath (step e ev st) = []"
proof (cases "pc st = L83")
  case True
  assume np: "configPath st = []"
  show ?thesis
  proof (cases ev)
    case MainStep
    with True np show ?thesis
      by (simp add: step_def Run_def load_config_def prim_defs)
  next
    case CoreStep
    with np show ?thesis
      by (cases "core st") (simp_all add: step_def core_goroutine_def prim_defs)
  next
    case DelayedStep
    with np show ?thesis
      by (cases "delayed st") (simp_all add: step_def delayed_goroutine_def prim_defs)
  next
    case (ServerReturn r)
    with np show ?thesis
      by (cases "server st"; cases r) (simp_all add: step_def server_goroutine_def prim_defs)
  next
    case (Signal s)
    with np show ?thesis by (simp add: step_def deliver_def)
  next
    case (Advance d)
    with np show ?thesis by (simp add: step_def)
  qed
next
  case False
  assume np: "configPath st = []"
  have "configPath (step e ev st) = configPath st"
  proof (cases ev)
    case MainStep
    have "configPath (Run e st) = configPath st"
      by (cases "pc st")
         (auto simp: Run_def waitForSignal_def prim_defs
               split: sum.splits option.splits list.splits chan.splits)
    with MainStep show ?thesis by (simp add: step_def)
  next
    case CoreStep
    then show ?thesis
      by (cases "core st") (simp_all add: step_def core_goroutine_def prim_defs)
  next
    case DelayedStep
    then show ?thesis
      by (cases "delayed st") (simp_all add: step_def delayed_goroutine_def prim_defs)
  next
    case (ServerReturn r)
    then show ?thesis
      by (cases "server st"; cases r) (simp_all add: step_def server_goroutine_def prim_defs)
  next
    case (Signal s)
    then show ?thesis by (simp add: step_def deliver_def)
  next
    case (Advance d)
    then show ?thesis by (simp add: step_def)
  qed
  with np step_pc_cfg [OF False, of e ev] show ?thesis by simp
qed

lemma exec_no_path: "configPath st = [] \<Longrightarrow> cfg (exec e evs st) = cfg st"
proof (induction evs arbitrary: st)
  case Nil
  then show ?case by simp
next
  case (Cons ev evs)
  from step_no_path [OF Cons.prems, of e ev]
  have "cfg (step e ev st) = cfg st" and "configPath (step e ev st) = []" by simp_all
  with Cons.IH [of "step e ev st"] show ?case by simp
qed

lemma load_from_file:
  assumes "p \<noteq> []" and "NewConfigFromFile e p = Inr c'"
  shows "step e MainStep (init p c) = (init p c')\<lparr>pc := L90\<rparr>"
  using assms by (simp add: step_def Run_def load_config_def init_def goto_def)

subsection \<open>What each goroutine appends to the trace\<close>

lemma Run_trace:
  "trace (Run e st) = trace st \<or>
   (\<exists>a. trace (Run e st) = trace st @ [(now st, a)] \<and>
        (\<forall>f ch. a \<noteq> Start f ch) \<and> (\<forall>d. a \<noteq> Sleep d) \<and>
        (a = CloseStop \<longrightarrow> pc st = L52))"
  by (cases "pc st")
     (auto simp: Run_def waitForSignal_def prim_defs
           split: sum.splits option.splits list.splits chan.splits)

lemma Run_now: "now (Run e st) = now st"
  by (cases "pc st")
     (auto simp: Run_def waitForSignal_def prim_defs
           split: sum.splits option.splits list.splits chan.splits)

lemma Run_delayed:
  "delayed (Run e st) = delayed st \<or>
   (pc st = L149 \<and> delayed (Run e st) = Runnable \<and>
    trace (Run e st) = trace st @ [(now st, Go GoDelayed)])"
  by (cases "pc st")
     (auto simp: Run_def waitForSignal_def prim_defs
           split: sum.splits option.splits list.splits chan.splits)

lemma core_trace:
  "trace (core_goroutine st) = trace st \<or>
   (core st = Runnable \<and>
    trace (core_goroutine st) = trace st @ [(now st, Start CoreSharedInformerFactory (stop st))])"
  by (cases "core st") (simp_all add: core_goroutine_def prim_defs)

lemma delayed_trace:
  "(trace (delayed_goroutine st) = trace st \<and> delayed (delayed_goroutine st) = delayed st) \<or>
   (delayed st = Runnable \<and> delayed (delayed_goroutine st) = Sleeping (now st + warm_up) \<and>
    trace (delayed_goroutine st) = trace st @ [(now st, Sleep warm_up)]) \<or>
   (\<exists>w. delayed st = Sleeping w \<and> w \<le> now st \<and> delayed (delayed_goroutine st) = Finished \<and>
    trace (delayed_goroutine st) =
      trace st @ [(now st, Start SharedInformerFactory (stop st))])"
  by (cases "delayed st") (simp_all add: delayed_goroutine_def prim_defs)

lemma server_trace: "trace (server_goroutine r st) = trace st"
  by (cases "server st"; cases r) (simp_all add: server_goroutine_def prim_defs)

lemma deliver_trace: "trace (deliver e s st) = trace st"
  by (simp add: deliver_def)

subsection \<open>Registration precedes the start of delivery\<close>

lemma registered_first_snoc:
  assumes "registered_first tr"
    and "\<And>f ch k. a = Start f ch \<Longrightarrow> k \<in> set (watchers f) \<Longrightarrow> Register k \<in> snd ` set tr"
  shows "registered_first (tr @ [(t, a)])"
  unfolding registered_first_def
proof (intro allI impI ballI)
  fix i f ch k
  assume i: "i < length (tr @ [(t, a)])"
    and s: "snd ((tr @ [(t, a)]) ! i) = Start f ch"
    and k: "k \<in> set (watchers f)"
  show "\<exists>j<i. snd ((tr @ [(t, a)]) ! j) = Register k"
  proof (cases "i < length tr")
    case True
    with s have si: "snd (tr ! i) = Start f ch" by (simp add: nth_append)
    from assms(1) [unfolded registered_first_def, rule_format, OF True si k]
    obtain j where j: "j < i" "snd (tr ! j) = Register k" by blast
    from j(1) True have "j < length tr" by simp
    with j(2) have "snd ((tr @ [(t, a)]) ! j) = Register k" by (simp add: nth_append)
    with j(1) show ?thesis by blast
  next
    case False
    with i have il: "i = length tr" by simp
    with s have "a = Start f ch" by simp
    from assms(2) [OF this k] obtain x where x: "x \<in> set tr" "snd x = Register k"
      by (metis imageE)
    from x(1) obtain j where j: "j < length tr" "tr ! j = x"
      by (metis in_set_conv_nth)
    from j x(2) have "snd ((tr @ [(t, a)]) ! j) = Register k" by (simp add: nth_append)
    with j(1) il show ?thesis by blast
  qed
qed

lemma registered_first_Run:
  assumes "registered_first (trace st)"
  shows "registered_first (trace (Run e st))"
proof -
  from Run_trace [of e st] consider
    "trace (Run e st) = trace st"
    | a where "trace (Run e st) = trace st @ [(now st, a)]" and "\<forall>f ch. a \<noteq> Start f ch"
    by blast
  then show ?thesis
  proof cases
    case 1
    with assms show ?thesis by simp
  next
    case 2
    have "registered_first (trace st @ [(now st, a)])"
    proof (rule registered_first_snoc [OF assms])
      fix f ch k
      assume "a = Start f ch"
      with 2(2) show "Register k \<in> snd ` set (trace st)" by blast
    qed
    with 2(1) show ?thesis by simp
  qed
qed

lemma registered_first_core:
  assumes "main_inv st" and "registered_first (trace st)"
  shows "registered_first (trace (core_goroutine st))"
proof -
  from core_trace [of st] consider
    "trace (core_goroutine st) = trace st"
    | "core st = Runnable" and
      "trace (core_goroutine st) =
         trace st @ [(now st, Start CoreSharedInformerFactory (stop st))]"
    by blast
  then show ?thesis
  proof cases
    case 1
    with assms(2) show ?thesis by simp
  next
    case 2
    from 2(1) have "core st \<noteq> NotSpawned" by simp
    with assms(1) have "Register Endpoints \<in> set (acts st)"
      unfolding main_inv_def by simp
    then have r: "Register Endpoints \<in> snd ` set (trace st)"
      by (simp add: acts_def)
    have "registered_first
            (trace st @ [(now st, Start CoreSharedInformerFactory (stop st))])"
    proof (rule registered_first_snoc [OF assms(2)])
      fix f ch k
      assume "Start CoreSharedInformerFactory (stop st) = Start f ch"
        and "k \<in> set (watchers f)"
      then have "k = Endpoints" by (simp add: watchers_def)
      with r show "Register k \<in> snd ` set (trace st)" by simp
    qed
    with 2(2) show ?thesis by simp
  qed
qed

lemma registered_first_delayed:
  assumes "main_inv st" and "registered_first (trace st)"
  shows "registered_first (trace (delayed_goroutine st))"
proof -
  from delayed_trace [of st] consider
    "trace (delayed_goroutine st) = trace st"
    | "trace (delayed_goroutine st) = trace st @ [(now st, Sleep warm_up)]"
    | w where "delayed st = Sleeping w" and
      "trace (delayed_goroutine st) =
         trace st @ [(now st, Start SharedInformerFactory (stop st))]"
    by blast
  then show ?thesis
  proof cases
    case 1
    with assms(2) show ?thesis by simp
  next
    case 2
    have "registered_first (trace st @ [(now st, Sleep warm_up)])"
      by (rule registered_first_snoc [OF assms(2)]) simp
    with 2 show ?thesis by simp
  next
    case 3
    from 3(1) have "delayed st \<noteq> NotSpawned" by simp
    with assms(1) have
      "Register ApisixRoute \<in> set (acts st)"
      "Register ApisixUpstream \<in> set (acts st)"
      "Register ApisixService \<in> set (acts st)"
      "Register ApisixTLS \<in> set (acts st)"
      unfolding main_inv_def by simp_all
    then have r: "k \<in> set (watchers SharedInformerFactory) \<Longrightarrow>
        Register k \<in> snd ` set (trace st)" for k
      unfolding acts_def watchers_def by auto
    have "registered_first
            (trace st @ [(now st, Start SharedInformerFactory (stop st))])"
    proof (rule registered_first_snoc [OF assms(2)])
      fix f ch k
      assume "Start SharedInformerFactory (stop st) = Start f ch"
        and "k \<in> set (watchers f)"
      then have "k \<in> set (watchers SharedInformerFactory)" by simp
      then show "Register k \<in> snd ` set (trace st)" by (rule r)
    qed
    with 3(2) show ?thesis by simp
  qed
qed

lemma registered_first_step:
  assumes "main_inv st" and "registered_first (trace st)"
  shows "registered_first (trace (step e ev st))"
proof (cases "status st = Running")
  case False
  with assms show ?thesis by (simp add: step_not_Running)
next
  case True
  show ?thesis
  proof (cases ev)
    case MainStep
    with True assms show ?thesis by (simp add: step_def registered_first_Run)
  next
    case CoreStep
    with True assms show ?thesis by (simp add: step_def registered_first_core)
  next
    case DelayedStep
    with True assms show ?thesis by (simp add: step_def registered_first_delayed)
  next
    case (ServerReturn r)
    with True assms(2) show ?thesis by (simp add: step_def server_trace)
  next
    case (Signal s)
    with True assms(2) show ?thesis by (simp add: step_def deliver_trace)
  next
    case (Advance d)
    with True assms(2) show ?thesis by (simp add: step_def)
  qed
qed

lemma registered_first_exec: "registered_first (trace (exec e evs (init p c)))"
proof -
  have "main_inv (exec e evs (init p c)) \<and> registered_first (trace (exec e evs (init p c)))"
  proof (rule exec_invariant)
    show "main_inv (init p c) \<and> registered_first (trace (init p c))"
      by (simp add: main_inv_init) (simp add: registered_first_def init_def)
  next
    fix s ev
    assume "main_inv s \<and> registered_first (trace s)"
    then show "main_inv (step e ev s) \<and> registered_first (trace (step e ev s))"
      by (simp add: main_inv_step registered_first_step)
  qed
  then show ?thesis by simp
qed

subsection \<open>The delayed start is late enough\<close>

lemma timing_inv_same:
  assumes "timing_inv st" and "trace st' = trace st" and "now st \<le> now st'"
    and "delayed st' = delayed st"
  shows "timing_inv st'"
proof -
  from assms(1) have "\<forall>t a. (t, a) \<in> set (trace st) \<longrightarrow> t \<le> now st"
    by (simp add: timing_inv_def)
  with assms(3) have "\<forall>t a. (t, a) \<in> set (trace st) \<longrightarrow> t \<le> now st'"
    by (meson le_trans)
  with assms show ?thesis by (simp add: timing_inv_def)
qed

lemma timing_inv_plain:
  assumes "timing_inv st" and "trace st' = trace st @ [(now st, a)]" and "now st' = now st"
    and "delayed st' = delayed st" and "\<forall>d. a \<noteq> Sleep d"
    and "\<forall>ch. a \<noteq> Start SharedInformerFactory ch"
  shows "timing_inv st'"
  using assms unfolding timing_inv_def by auto blast+

lemma timing_inv_go:
  assumes "timing_inv st" and "trace st' = trace st @ [(now st, Go GoDelayed)]"
    and "now st' = now st" and "delayed st' = Runnable"
  shows "timing_inv st'"
  using assms unfolding timing_inv_def by auto blast+

lemma timing_inv_sleep:
  assumes "timing_inv st" and "trace st' = trace st @ [(now st, Sleep warm_up)]"
    and "now st' = now st" and "delayed st = Runnable"
    and "delayed st' = Sleeping (now st + warm_up)"
  shows "timing_inv st'"
proof -
  from assms(1,4) obtain tg where tg: "(tg, Go GoDelayed) \<in> set (trace st)" "tg \<le> now st"
    unfolding timing_inv_def by (metis task.distinct(1))
  with assms show ?thesis unfolding timing_inv_def by auto
qed

lemma timing_inv_start:
  assumes "timing_inv st"
    and "trace st' = trace st @ [(now st, Start SharedInformerFactory ch)]"
    and "now st' = now st" and "delayed st = Sleeping w" and "w \<le> now st"
    and "delayed st' = Finished"
  shows "timing_inv st'"
proof -
  from assms(1,4,5) obtain t0 where "(t0, Sleep warm_up) \<in> set (trace st)"
    "t0 + warm_up \<le> now st"
    unfolding timing_inv_def by auto
  with assms show ?thesis unfolding timing_inv_def by auto
qed


lemma core_other: "now (core_goroutine st) = now st \<and> delayed (core_goroutine st) = delayed st"
  by (cases "core st") (simp_all add: core_goroutine_def prim_defs)

lemma delayed_now: "now (delayed_goroutine st) = now st"
  by (cases "delayed st") (simp_all add: delayed_goroutine_def prim_defs)

lemma server_other:
  "now (server_goroutine r st) = now st \<and> delayed (server_goroutine r st) = delayed st"
  by (cases "server st"; cases r) (simp_all add: server_goroutine_def prim_defs)

lemma deliver_other: "now (deliver e s st) = now st \<and> delayed (deliver e s st) = delayed st"
  by (simp add: deliver_def)

lemma timing_inv_Run:
  assumes "timing_inv st"
  shows "timing_inv (Run e st)"
proof -
  from Run_delayed [of e st] consider
    (go) "delayed (Run e st) = Runnable" and
      "trace (Run e st) = trace st @ [(now st, Go GoDelayed)]"
    | (same) "delayed (Run e st) = delayed st"
    by blast
  then show ?thesis
  proof cases
    case go
    show ?thesis by (rule timing_inv_go [OF assms go(2) Run_now go(1)])
  next
    case same
    from Run_trace [of e st] consider
      (quiet) "trace (Run e st) = trace st"
      | (app) a where "trace (Run e st) = trace st @ [(now st, a)]"
        and "\<forall>f ch. a \<noteq> Start f ch" and "\<forall>d. a \<noteq> Sleep d"
      by blast
    then show ?thesis
    proof cases
      case quiet
      show ?thesis by (rule timing_inv_same [OF assms quiet _ same]) (simp add: Run_now)
    next
      case app
      show ?thesis
        by (rule timing_inv_plain [OF assms app(1) Run_now same app(3)]) (simp add: app(2))
    qed
  qed
qed

lemma timing_inv_core:
  assumes "timing_inv st"
  shows "timing_inv (core_goroutine st)"
proof -
  from core_trace [of st] consider
    (quiet) "trace (core_goroutine st) = trace st"
    | (app) "trace (core_goroutine st) =
        trace st @ [(now st, Start CoreSharedInformerFactory (stop st))]"
    by blast
  then show ?thesis
  proof cases
    case quiet
    show ?thesis by (rule timing_inv_same [OF assms quiet]) (simp_all add: core_other)
  next
    case app
    show ?thesis by (rule timing_inv_plain [OF assms app]) (simp_all add: core_other)
  qed
qed

lemma timing_inv_delayed:
  assumes "timing_inv st"
  shows "timing_inv (delayed_goroutine st)"
proof -
  from delayed_trace [of st] consider
    (quiet) "trace (delayed_goroutine st) = trace st"
      and "delayed (delayed_goroutine st) = delayed st"
    | (sleep) "delayed st = Runnable"
      and "delayed (delayed_goroutine st) = Sleeping (now st + warm_up)"
      and "trace (delayed_goroutine st) = trace st @ [(now st, Sleep warm_up)]"
    | (start) w where "delayed st = Sleeping w" and "w \<le> now st"
      and "delayed (delayed_goroutine st) = Finished"
      and "trace (delayed_goroutine st) =
        trace st @ [(now st, Start SharedInformerFactory (stop st))]"
    by blast
  then show ?thesis
  proof cases
    case quiet
    show ?thesis by (rule timing_inv_same [OF assms quiet(1) _ quiet(2)]) (simp add: delayed_now)
  next
    case sleep
    show ?thesis by (rule timing_inv_sleep [OF assms sleep(3) delayed_now sleep(1) sleep(2)])
  next
    case start
    show ?thesis
      by (rule timing_inv_start [OF assms start(4) delayed_now start(1) start(2) start(3)])
  qed
qed

lemma timing_inv_step: "timing_inv st \<Longrightarrow> timing_inv (step e ev st)"
proof (cases "status st = Running")
  case False
  assume "timing_inv st"
  with False show ?thesis by (simp add: step_not_Running)
next
  case True
  assume inv: "timing_inv st"
  show ?thesis
  proof (cases ev)
    case MainStep
    with True inv show ?thesis by (simp add: step_def timing_inv_Run)
  next
    case CoreStep
    with True inv show ?thesis by (simp add: step_def timing_inv_core)
  next
    case DelayedStep
    with True inv show ?thesis by (simp add: step_def timing_inv_delayed)
  next
    case (ServerReturn r)
    from inv have "timing_inv (server_goroutine r st)"
      by (rule timing_inv_same) (simp_all add: server_trace server_other)
    with True ServerReturn show ?thesis by (simp add: step_def)
  next
    case (Signal s)
    from inv have "timing_inv (deliver e s st)"
      by (rule timing_inv_same) (simp_all add: deliver_trace deliver_other)
    with True Signal show ?thesis by (simp add: step_def)
  next
    case (Advance d)
    from inv have "timing_inv (st\<lparr>now := now st + d\<rparr>)"
      by (rule timing_inv_same) simp_all
    with True Advance show ?thesis by (simp add: step_def)
  qed
qed

lemma timing_inv_exec: "timing_inv (exec e evs (init p c))"
proof (rule exec_invariant)
  show "timing_inv (init p c)" by (simp add: timing_inv_def init_def)
qed (rule timing_inv_step)

subsection \<open>Evaluating concrete executions\<close>

lemmas run_defs = startup_def env0_def env_file_def file_config_def flag_defaults_def
  init_def step_def Run_def waitForSignal_def dief_def emit_def goto_def close_stopCh_def
  close_chan_def deliver_def load_config_def podNamespace_def return_from_Run_def
  core_goroutine_def delayed_goroutine_def server_goroutine_def warm_up_def Second_def
  Minute_def SIGINT_def SIGTERM_def HasSuffix_def

lemma trace_sched_start:
  "trace (exec env0 sched_start (init [] flag_defaults)) =
     [(0, Info ''apisix ingress controller started''),
      (0, Info (''use configuration'' @ [CHR 0x0A] @ ''{}'')),
      (0, SetBaseUrl []), (0, ResetLeader [] ''default''),
      (0, Register Endpoints), (0, Go GoCore),
      (0, Register ApisixRoute), (0, Register ApisixUpstream),
      (0, Register ApisixService), (0, Register ApisixTLS),
      (0, Go GoDelayed), (0, Go GoServer),
      (0, Start CoreSharedInformerFactory Open), (0, Sleep 10000000000),
      (10000000000, Start SharedInformerFactory Open)]"
  by (simp add: sched_start_def run_defs)

lemma state_sched_wait:
  "status (exec env0 sched_wait (init [] flag_defaults)) = Running \<and>
   pc (exec env0 sched_wait (init [] flag_defaults)) = L167 \<and>
   delayed (exec env0 sched_wait (init [] flag_defaults)) = Sleeping 10000000000 \<and>
   now (exec env0 sched_wait (init [] flag_defaults)) = 10000000000 \<and>
   stop (exec env0 sched_wait (init [] flag_defaults)) = Closed"
  by (simp add: sched_wait_def run_defs)

lemma trace_sched_wait:
  "trace (exec env0 sched_wait (init [] flag_defaults)) =
     [(0, Info ''apisix ingress controller started''),
      (0, Info (''use configuration'' @ [CHR 0x0A] @ ''{}'')),
      (0, SetBaseUrl []), (0, ResetLeader [] ''default''),
      (0, Register Endpoints), (0, Go GoCore),
      (0, Register ApisixRoute), (0, Register ApisixUpstream),
      (0, Register ApisixService), (0, Register ApisixTLS),
      (0, Go GoDelayed), (0, Go GoServer), (0, Notify [2, 15]),
      (0, Sleep 10000000000), (9999999999, Infof_signal 15), (9999999999, CloseStop)]"
  by (simp add: sched_wait_def run_defs)

lemma state_sched_ready:
  "status (exec env0 sched_ready (init [] flag_defaults)) = Running \<and>
   pc (exec env0 sched_ready (init [] flag_defaults)) = L50 \<and>
   notified (exec env0 sched_ready (init [] flag_defaults)) \<and>
   sigCh (exec env0 sched_ready (init [] flag_defaults)) = [] \<and>
   stop (exec env0 sched_ready (init [] flag_defaults)) = Open \<and>
   server (exec env0 sched_ready (init [] flag_defaults)) = Runnable \<and>
   core (exec env0 sched_ready (init [] flag_defaults)) = Runnable \<and>
   stderr (exec env0 sched_ready (init [] flag_defaults)) = []"
  by (simp add: sched_ready_def run_defs)

subsection \<open>The stop channel\<close>














subsection \<open>Signals\<close>

lemma unsignalled_Run:
  assumes "sigCh st = []" and "progress (pc st) \<le> 15"
  shows "sigCh (Run e st) = [] \<and> progress (pc (Run e st)) \<le> 15"
  using assms
  by (cases "pc st")
     (auto simp: Run_def waitForSignal_def prim_defs
           split: sum.splits option.splits list.splits chan.splits)

lemma unsignalled_step:
  assumes "sigCh st = []" and "progress (pc st) \<le> 15"
    and "ev \<noteq> Signal SIGINT" and "ev \<noteq> Signal SIGTERM"
  shows "sigCh (step e ev st) = [] \<and> progress (pc (step e ev st)) \<le> 15"
proof (cases ev)
  case MainStep
  with assms(1,2) unsignalled_Run [OF assms(1,2), of e] show ?thesis
    by (simp add: step_def)
next
  case CoreStep
  with assms(1,2) show ?thesis
    by (cases "core st") (simp_all add: step_def core_goroutine_def prim_defs)
next
  case DelayedStep
  with assms(1,2) show ?thesis
    by (cases "delayed st") (simp_all add: step_def delayed_goroutine_def prim_defs)
next
  case (ServerReturn r)
  with assms(1,2) show ?thesis
    by (cases "server st"; cases r) (simp_all add: step_def server_goroutine_def prim_defs)
next
  case (Signal s)
  with assms show ?thesis by (simp add: step_def deliver_def)
next
  case (Advance d)
  with assms(1,2) show ?thesis by (simp add: step_def)
qed

lemma unsignalled_exec:
  assumes "Signal SIGINT \<notin> set evs" and "Signal SIGTERM \<notin> set evs"
    and "sigCh st = []" and "progress (pc st) \<le> 15"
  shows "progress (pc (exec e evs st)) \<le> 15"
  using assms
proof (induction evs arbitrary: st)
  case Nil
  then show ?case by simp
next
  case (Cons ev evs)
  from Cons.prems have "ev \<noteq> Signal SIGINT" and "ev \<noteq> Signal SIGTERM" by auto
  from unsignalled_step [OF Cons.prems(3,4) this, of e]
  have "sigCh (step e ev st) = []" and "progress (pc (step e ev st)) \<le> 15" by simp_all
  with Cons.IH [of "step e ev st"] Cons.prems(1,2) show ?case by simp
qed

lemma close_needs_signal:
  assumes "CloseStop \<in> set (acts (exec e evs (init p c)))"
  shows "Signal SIGINT \<in> set evs \<or> Signal SIGTERM \<in> set evs"
proof (rule ccontr)
  assume "\<not> (Signal SIGINT \<in> set evs \<or> Signal SIGTERM \<in> set evs)"
  then have "Signal SIGINT \<notin> set evs" and "Signal SIGTERM \<notin> set evs" by simp_all
  then have "progress (pc (exec e evs (init p c))) \<le> 15"
    by (rule unsignalled_exec) (simp_all add: init_def)
  moreover from main_inv_exec [of e evs p c] assms
  have "17 \<le> progress (pc (exec e evs (init p c)))"
    unfolding main_inv_def by blast
  ultimately show False by simp
qed

lemma other_signal:
  "s \<noteq> SIGINT \<Longrightarrow> s \<noteq> SIGTERM \<Longrightarrow>
   step e (Signal s) st = st \<or> step e (Signal s) st = st\<lparr>status := Killed s\<rparr>"
  by (simp add: step_def deliver_def)

lemma subscribed_signal:
  assumes "s = SIGINT \<or> s = SIGTERM" and "status st = Running" and "pc st = L50"
    and "notified st" and "sigCh st = []" and "stop st = Open"
  shows "status (exec e [Signal s, MainStep, MainStep] st) = Running \<and>
         pc (exec e [Signal s, MainStep, MainStep] st) = L167 \<and>
         stop (exec e [Signal s, MainStep, MainStep] st) = Closed \<and>
         acts (exec e [Signal s, MainStep, MainStep] st) = acts st @ [Infof_signal s, CloseStop]"
  using assms
  by (auto simp: step_def deliver_def Run_def waitForSignal_def prim_defs)

subsection \<open>Fatal failures\<close>

lemma dief_eval:
  "dief ''failed to initialize configuration: %s'' a st =
     st\<lparr>stderr := stderr st @ ''failed to initialize configuration: '' @ a @ [CHR 0x0A],
        status := Exited 1\<rparr>"
  "dief ''failed to initialize logging: %s'' a st =
     st\<lparr>stderr := stderr st @ ''failed to initialize logging: '' @ a @ [CHR 0x0A],
        status := Exited 1\<rparr>"
  "dief ''failed to show configuration: %s'' a st =
     st\<lparr>stderr := stderr st @ ''failed to show configuration: '' @ a @ [CHR 0x0A],
        status := Exited 1\<rparr>"
  "dief ''failed to initialize kube informers: %s'' a st =
     st\<lparr>stderr := stderr st @ ''failed to initialize kube informers: '' @ a @ [CHR 0x0A],
        status := Exited 1\<rparr>"
  "dief ''failed to create API Server: %s'' a st =
     st\<lparr>stderr := stderr st @ ''failed to create API Server: '' @ a @ [CHR 0x0A],
        status := Exited 1\<rparr>"
  "dief ''failed to launch API Server: %s'' a st =
     st\<lparr>stderr := stderr st @ ''failed to launch API Server: '' @ a @ [CHR 0x0A],
        status := Exited 1\<rparr>"
  by (simp_all add: dief_def HasSuffix_def)

lemma server_error:
  assumes "status st = Running" and "server st = Runnable"
  shows "step e (ServerReturn (Some err)) st =
           st\<lparr>stderr := stderr st @ ''failed to launch API Server: '' @ err @ [CHR 0x0A],
              status := Exited 1\<rparr>"
  using assms by (simp add: step_def server_goroutine_def dief_eval)

lemma server_clean:
  assumes "status st = Running" and "server st = Runnable"
  shows "step e (ServerReturn None) st = st\<lparr>server := Finished\<rparr>"
  using assms by (simp add: step_def server_goroutine_def)

lemma idle_goroutines:
  "core st = NotSpawned \<Longrightarrow> core_goroutine st = st"
  "delayed st = NotSpawned \<Longrightarrow> delayed_goroutine st = st"
  "server st = NotSpawned \<Longrightarrow> server_goroutine r st = st"
  by (simp_all add: core_goroutine_def delayed_goroutine_def server_goroutine_def)

lemma failed_at_other:
  assumes "failed_at l msg st" and "ev \<noteq> MainStep"
  shows "failed_at l msg (step e ev st) \<and> pc (step e ev st) = pc st \<and>
         cfg (step e ev st) = cfg st \<and> configPath (step e ev st) = configPath st"
proof (cases "status st = Running")
  case False
  with assms show ?thesis by (simp add: step_not_Running)
next
  case True
  from assms(1) have n: "core st = NotSpawned" "delayed st = NotSpawned"
    "server st = NotSpawned" "\<not> notified st"
    by (simp_all add: failed_at_def no_startup_def)
  show ?thesis
  proof (cases ev)
    case MainStep
    with assms(2) show ?thesis by simp
  next
    case CoreStep
    with True n assms(1) show ?thesis by (simp add: step_def idle_goroutines)
  next
    case DelayedStep
    with True n assms(1) show ?thesis by (simp add: step_def idle_goroutines)
  next
    case (ServerReturn r)
    with True n assms(1) show ?thesis by (simp add: step_def idle_goroutines)
  next
    case (Signal s)
    with True n assms(1) show ?thesis
      by (simp add: step_def deliver_def failed_at_def no_startup_def)
  next
    case (Advance d)
    with True assms(1) show ?thesis
      by (simp add: step_def failed_at_def no_startup_def)
  qed
qed

lemma config_failure_Run:
  assumes "p \<noteq> []" and "NewConfigFromFile e p = Inl err"
    and "status st = Running" and "pc st = L83" and "configPath st = p" and "no_startup st"
    and "stderr st = []"
  shows "Run e st =
    st\<lparr>stderr := ''failed to initialize configuration: '' @ err @ [CHR 0x0A],
       status := Exited 1\<rparr>"
  using assms by (simp add: Run_def load_config_def dief_eval)

lemma config_failure_step:
  assumes "p \<noteq> []" and "NewConfigFromFile e p = Inl err"
    and "pc st = L83 \<and> configPath st = p \<and>
         failed_at L83 (''failed to initialize configuration: '' @ err @ [CHR 0x0A]) st"
  shows "pc (step e ev st) = L83 \<and> configPath (step e ev st) = p \<and>
         failed_at L83 (''failed to initialize configuration: '' @ err @ [CHR 0x0A])
           (step e ev st)"
proof (cases "ev = MainStep")
  case False
  from assms(3) have "failed_at L83 (''failed to initialize configuration: '' @ err @ [CHR 0x0A]) st"
    by blast
  from failed_at_other [OF this False, of e] assms(3) show ?thesis by metis
next
  case True
  show ?thesis
  proof (cases "status st = Running")
    case False
    with assms(3) show ?thesis by (simp add: step_not_Running)
  next
    case r: True
    with assms(3) have "stderr st = []" and "no_startup st"
      by (auto simp: failed_at_def)
    with config_failure_Run [OF assms(1,2) r, of ] assms(3)
    have "Run e st = st\<lparr>stderr := ''failed to initialize configuration: '' @ err @ [CHR 0x0A],
       status := Exited 1\<rparr>" by simp
    with True r assms(3) show ?thesis
      by (simp add: step_def failed_at_def no_startup_def)
  qed
qed

lemma config_failure_exec:
  assumes "p \<noteq> []" and "NewConfigFromFile e p = Inl err"
  shows "failed_at L83 (''failed to initialize configuration: '' @ err @ [CHR 0x0A])
           (exec e evs (init p c))"
proof -
  have "pc (exec e evs (init p c)) = L83 \<and> configPath (exec e evs (init p c)) = p \<and>
      failed_at L83 (''failed to initialize configuration: '' @ err @ [CHR 0x0A])
        (exec e evs (init p c))"
  proof (rule exec_invariant)
    show "pc (init p c) = L83 \<and> configPath (init p c) = p \<and>
      failed_at L83 (''failed to initialize configuration: '' @ err @ [CHR 0x0A]) (init p c)"
      by (simp add: init_def failed_at_def no_startup_def)
  next
    fix s ev
    assume "pc s = L83 \<and> configPath s = p \<and>
      failed_at L83 (''failed to initialize configuration: '' @ err @ [CHR 0x0A]) s"
    then show "pc (step e ev s) = L83 \<and> configPath (step e ev s) = p \<and>
      failed_at L83 (''failed to initialize configuration: '' @ err @ [CHR 0x0A]) (step e ev s)"
      by (rule config_failure_step [OF assms])
  qed
  then show ?thesis by simp
qed

lemma config_failure_first:
  assumes "p \<noteq> []" and "NewConfigFromFile e p = Inl err"
  shows "exec e (MainStep # evs) (init p c) =
    (init p c)\<lparr>stderr := ''failed to initialize configuration: '' @ err @ [CHR 0x0A],
              status := Exited 1\<rparr>"
proof -
  have "step e MainStep (init p c) =
    (init p c)\<lparr>stderr := ''failed to initialize configuration: '' @ err @ [CHR 0x0A],
              status := Exited 1\<rparr>"
    using assms by (simp add: step_def Run_def load_config_def dief_eval init_def)
  then show ?thesis by (simp add: exec_not_Running)
qed

lemma logger_failure_step:
  assumes "load_config e p c = Inr c'"
    and "NewLogger e (LogLevel c') (LogOutput c') = Some err"
    and "(pc st = L83 \<and> configPath st = p \<and> cfg st = c \<or> pc st = L90 \<and> cfg st = c') \<and>
         failed_at L90 (''failed to initialize logging: '' @ err @ [CHR 0x0A]) st"
  shows "(pc (step e ev st) = L83 \<and> configPath (step e ev st) = p \<and> cfg (step e ev st) = c \<or>
          pc (step e ev st) = L90 \<and> cfg (step e ev st) = c') \<and>
         failed_at L90 (''failed to initialize logging: '' @ err @ [CHR 0x0A]) (step e ev st)"
proof (cases "ev = MainStep")
  case False
  from assms(3) have "failed_at L90 (''failed to initialize logging: '' @ err @ [CHR 0x0A]) st"
    by blast
  from failed_at_other [OF this False, of e] assms(3) show ?thesis by metis
next
  case True
  show ?thesis
  proof (cases "status st = Running")
    case False
    with assms(3) show ?thesis by (simp add: step_not_Running)
  next
    case r: True
    with assms(3) have q: "stderr st = []" and n: "no_startup st"
      by (auto simp: failed_at_def)
    from assms(3) consider
      (a) "pc st = L83" and "configPath st = p" and "cfg st = c"
      | (b) "pc st = L90" and "cfg st = c'"
      by blast
    then show ?thesis
    proof cases
      case a
      with assms(1) have "Run e st = st\<lparr>cfg := c', pc := L90\<rparr>"
        by (simp add: Run_def goto_def)
      with True r q n show ?thesis
        by (simp add: step_def failed_at_def no_startup_def)
    next
      case b
      with assms(2) have "Run e st =
          st\<lparr>stderr := stderr st @ ''failed to initialize logging: '' @ err @ [CHR 0x0A],
             status := Exited 1\<rparr>"
        by (simp add: Run_def dief_eval)
      with True r q n b show ?thesis
        by (simp add: step_def failed_at_def no_startup_def)
    qed
  qed
qed

lemma logger_failure_exec:
  assumes "load_config e p c = Inr c'"
    and "NewLogger e (LogLevel c') (LogOutput c') = Some err"
  shows "failed_at L90 (''failed to initialize logging: '' @ err @ [CHR 0x0A])
           (exec e evs (init p c))"
proof -
  let ?I = "\<lambda>st. (pc st = L83 \<and> configPath st = p \<and> cfg st = c \<or> pc st = L90 \<and> cfg st = c') \<and>
         failed_at L90 (''failed to initialize logging: '' @ err @ [CHR 0x0A]) st"
  have "?I (exec e evs (init p c))"
  proof (rule exec_invariant)
    show "?I (init p c)"
      by (simp add: init_def failed_at_def no_startup_def)
  next
    fix s ev
    assume "?I s"
    then show "?I (step e ev s)"
      by (rule logger_failure_step [OF assms])
  qed
  then show ?thesis by simp
qed

lemma logger_failure_first:
  assumes "load_config e p c = Inr c'"
    and "NewLogger e (LogLevel c') (LogOutput c') = Some err"
  shows "exec e (MainStep # MainStep # evs) (init p c) =
    (init p c)\<lparr>cfg := c', pc := L90,
              stderr := ''failed to initialize logging: '' @ err @ [CHR 0x0A],
              status := Exited 1\<rparr>"
proof -
  have a: "step e MainStep (init p c) = (init p c)\<lparr>cfg := c', pc := L90\<rparr>"
    using assms(1) by (simp add: step_def Run_def goto_def init_def)
  have "step e MainStep ((init p c)\<lparr>cfg := c', pc := L90\<rparr>) =
    (init p c)\<lparr>cfg := c', pc := L90,
              stderr := ''failed to initialize logging: '' @ err @ [CHR 0x0A],
              status := Exited 1\<rparr>"
    using assms(2) by (simp add: step_def Run_def dief_eval init_def)
  with a show ?thesis by (simp add: exec_not_Running)
qed

lemma failed_at_exit:
  assumes "failed_at l msg st"
  shows "no_startup st \<and> (\<forall>n. status st = Exited n \<longrightarrow> n = 1 \<and> stderr st = msg)"
  using assms unfolding failed_at_def by auto

subsection \<open>Exit codes and diagnostics\<close>

lemma fatal_iff:
  assumes "status st = Running"
  shows "status (Run e st) = Exited 1 \<longleftrightarrow> fatal e st"
  using assms
  by (cases "pc st")
     (auto simp: Run_def waitForSignal_def fatal_def prim_defs
           split: sum.splits option.splits list.splits chan.splits)

lemma diagnostic_intro:
  "m \<in> set diagnostics \<Longrightarrow> s = m @ err @ [CHR 0x0A] \<Longrightarrow>
   \<exists>m\<in>set diagnostics. \<exists>err. s = m @ err @ [CHR 0x0A]"
  by blast

lemma diagnostic_Run:
  assumes "status st = Running" and "stderr st = []" and "status (Run e st) = Exited 1"
  shows "\<exists>m\<in>set diagnostics. \<exists>err. stderr (Run e st) = m @ err @ [CHR 0x0A]"
proof -
  from fatal_iff [OF assms(1), of e] assms(3) have f: "fatal e st" by blast
  then consider "pc st = L83" | "pc st = L90" | "pc st = L100" | "pc st = L107" | "pc st = L154"
    by (cases "pc st") (simp_all add: fatal_def)
  then show ?thesis
  proof cases
    case 1
    with f obtain err where "load_config e (configPath st) (cfg st) = Inl err"
      by (auto simp: fatal_def split: sum.splits)
    with 1 have
      "stderr (Run e st) = ''failed to initialize configuration: '' @ err @ [CHR 0x0A]"
      using assms(2) by (simp add: Run_def dief_eval emit_def)
    moreover have "''failed to initialize configuration: '' \<in> set diagnostics"
      by (simp add: diagnostics_def)
    ultimately show ?thesis by (rule diagnostic_intro [rotated])
  next
    case 2
    with f obtain err where
      "NewLogger e (LogLevel (cfg st)) (LogOutput (cfg st)) = Some err"
      by (auto simp: fatal_def)
    with 2 have
      "stderr (Run e st) = ''failed to initialize logging: '' @ err @ [CHR 0x0A]"
      using assms(2) by (simp add: Run_def dief_eval emit_def)
    moreover have "''failed to initialize logging: '' \<in> set diagnostics"
      by (simp add: diagnostics_def)
    ultimately show ?thesis by (rule diagnostic_intro [rotated])
  next
    case 3
    with f obtain err where "MarshalIndent e (cfg st) = Inl err"
      by (auto simp: fatal_def split: sum.splits)
    with 3 have
      "stderr (Run e st) = ''failed to show configuration: '' @ [] @ [CHR 0x0A]"
      using assms(2) by (simp add: Run_def dief_eval emit_def)
    moreover have "''failed to show configuration: '' \<in> set diagnostics"
      by (simp add: diagnostics_def)
    ultimately show ?thesis by (rule diagnostic_intro [rotated])
  next
    case 4
    with f obtain err where "InitInformer e (cfg st) = Some err"
      by (auto simp: fatal_def)
    with 4 have
      "stderr (Run e st) = ''failed to initialize kube informers: '' @ err @ [CHR 0x0A]"
      using assms(2) by (simp add: Run_def Let_def dief_eval emit_def)
    moreover have "''failed to initialize kube informers: '' \<in> set diagnostics"
      by (simp add: diagnostics_def)
    ultimately show ?thesis by (rule diagnostic_intro [rotated])
  next
    case 5
    with f obtain err where "NewServer e (cfg st) = Some err"
      by (auto simp: fatal_def)
    with 5 have
      "stderr (Run e st) = ''failed to create API Server: '' @ err @ [CHR 0x0A]"
      using assms(2) by (simp add: Run_def dief_eval emit_def)
    moreover have "''failed to create API Server: '' \<in> set diagnostics"
      by (simp add: diagnostics_def)
    ultimately show ?thesis by (rule diagnostic_intro [rotated])
  qed
qed

lemma diagnostic_server:
  assumes "status st = Running" and "stderr st = []"
    and "status (server_goroutine r st) = Exited 1"
  shows "\<exists>m\<in>set diagnostics. \<exists>err. stderr (server_goroutine r st) = m @ err @ [CHR 0x0A]"
proof -
  from assms(1,3) obtain err where "server st = Runnable" and "r = Some err"
    by (cases "server st"; cases r) (simp_all add: server_goroutine_def)
  with assms(2) have
    "stderr (server_goroutine r st) = ''failed to launch API Server: '' @ err @ [CHR 0x0A]"
    by (simp add: server_goroutine_def dief_eval)
  moreover have "''failed to launch API Server: '' \<in> set diagnostics"
    by (simp add: diagnostics_def)
  ultimately show ?thesis by (rule diagnostic_intro [rotated])
qed

lemma diagnostic_step:
  assumes "main_inv st"
    and "status st = Exited 1 \<longrightarrow>
           (\<exists>m\<in>set diagnostics. \<exists>err. stderr st = m @ err @ [CHR 0x0A])"
  shows "status (step e ev st) = Exited 1 \<longrightarrow>
           (\<exists>m\<in>set diagnostics. \<exists>err. stderr (step e ev st) = m @ err @ [CHR 0x0A])"
proof (cases "status st = Running")
  case False
  with assms(2) show ?thesis by (simp add: step_not_Running)
next
  case True
  with assms(1) have q: "stderr st = []" by (simp add: main_inv_def)
  show ?thesis
  proof (cases ev)
    case MainStep
    with True diagnostic_Run [OF True q, of e] show ?thesis by (simp add: step_def)
  next
    case CoreStep
    with True show ?thesis
      by (cases "core st") (simp_all add: step_def core_goroutine_def prim_defs)
  next
    case DelayedStep
    with True show ?thesis
      by (cases "delayed st") (simp_all add: step_def delayed_goroutine_def prim_defs)
  next
    case (ServerReturn r)
    with True diagnostic_server [OF True q, of r] show ?thesis by (simp add: step_def)
  next
    case (Signal s)
    with True show ?thesis by (simp add: step_def deliver_def)
  next
    case (Advance d)
    with True show ?thesis by (simp add: step_def)
  qed
qed

lemma diagnostic_exec:
  "status (exec e evs (init p c)) = Exited 1 \<longrightarrow>
     (\<exists>m\<in>set diagnostics. \<exists>err. stderr (exec e evs (init p c)) = m @ err @ [CHR 0x0A])"
proof -
  let ?D = "\<lambda>st. status st = Exited 1 \<longrightarrow>
     (\<exists>m\<in>set diagnostics. \<exists>err. stderr st = m @ err @ [CHR 0x0A])"
  have "main_inv (exec e evs (init p c)) \<and> ?D (exec e evs (init p c))"
  proof (rule exec_invariant)
    show "main_inv (init p c) \<and> ?D (init p c)"
      by (simp add: main_inv_init) (simp add: init_def)
  next
    fix s ev
    assume "main_inv s \<and> ?D s"
    then have "main_inv s" and "?D s" by blast+
    from main_inv_step [OF this(1), of e ev] diagnostic_step [OF this, of e ev]
    show "main_inv (step e ev s) \<and> ?D (step e ev s)" by blast
  qed
  then show ?thesis by blast
qed

subsection \<open>The order of the start-up\<close>

lemma order_Run:
  assumes "filter is_startup (acts st) = take (started (pc st)) startup_order"
  shows "filter is_startup (acts (Run e st)) = take (started (pc (Run e st))) startup_order"
  using assms
  by (cases "pc st")
     (auto simp: Run_def waitForSignal_def prim_defs startup_order_def
           split: sum.splits option.splits list.splits chan.splits)

lemma order_step:
  assumes "filter is_startup (acts st) = take (started (pc st)) startup_order"
  shows "filter is_startup (acts (step e ev st)) =
           take (started (pc (step e ev st))) startup_order"
proof (cases "status st = Running")
  case False
  with assms show ?thesis by (simp add: step_not_Running)
next
  case True
  show ?thesis
  proof (cases ev)
    case MainStep
    with True order_Run [OF assms, of e] show ?thesis by (simp add: step_def)
  next
    case CoreStep
    with True assms show ?thesis
      by (cases "core st") (simp_all add: step_def core_goroutine_def prim_defs)
  next
    case DelayedStep
    with True assms show ?thesis
      by (cases "delayed st") (simp_all add: step_def delayed_goroutine_def prim_defs)
  next
    case (ServerReturn r)
    with True assms show ?thesis
      by (cases "server st"; cases r) (simp_all add: step_def server_goroutine_def prim_defs)
  next
    case (Signal s)
    with True assms show ?thesis by (simp add: step_def deliver_def acts_def)
  next
    case (Advance d)
    with True assms show ?thesis by (simp add: step_def acts_def)
  qed
qed

lemma order_exec:
  "filter is_startup (acts (exec e evs (init p c))) =
     take (started (pc (exec e evs (init p c)))) startup_order"
proof (rule exec_invariant)
  show "filter is_startup (acts (init p c)) = take (started (pc (init p c))) startup_order"
    by (simp add: init_def acts_def)
qed (rule order_step)

lemma start_after_spawn:
  assumes "timing_inv st" and "(t, Start SharedInformerFactory ch) \<in> set (trace st)"
  shows "\<exists>tg. (tg, Go GoDelayed) \<in> set (trace st) \<and> tg + warm_up \<le> t"
proof -
  from assms obtain t0 where s: "(t0, Sleep warm_up) \<in> set (trace st)" and l: "t0 + warm_up \<le> t"
    unfolding timing_inv_def by blast
  from assms(1) s obtain tg where "tg \<le> t0" and "(tg, Go GoDelayed) \<in> set (trace st)"
    unfolding timing_inv_def by blast
  with l have "(tg, Go GoDelayed) \<in> set (trace st) \<and> tg + warm_up \<le> t" by simp
  then show ?thesis ..
qed

lemma core_immediate:
  "status st = Running \<Longrightarrow> core st = Runnable \<Longrightarrow>
   trace (step e CoreStep st) =
     trace st @ [(now st, Start CoreSharedInformerFactory (stop st))]"
  by (simp add: step_def core_goroutine_def emit_def)

lemma hide_Run: "hide_delayed (Run e (hide_delayed st)) = hide_delayed (Run e st)"
  by (cases "pc st")
     (auto simp: hide_delayed_def Run_def waitForSignal_def prim_defs
           split: sum.splits option.splits list.splits chan.splits)

lemma hide_step:
  "ev \<noteq> DelayedStep \<Longrightarrow> hide_delayed (step e ev (hide_delayed st)) = hide_delayed (step e ev st)"
proof (cases ev)
  case MainStep
  have "status (hide_delayed st) = status st" by (simp add: hide_delayed_def)
  with MainStep hide_Run [of e st] show ?thesis by (simp add: step_def hide_delayed_def)
next
  case CoreStep
  then show ?thesis
    by (cases "core st") (simp_all add: step_def core_goroutine_def prim_defs hide_delayed_def)
next
  case DelayedStep
  assume "ev \<noteq> DelayedStep"
  with DelayedStep show ?thesis by simp
next
  case (ServerReturn r)
  then show ?thesis
    by (cases "server st"; cases r)
       (simp_all add: step_def server_goroutine_def prim_defs hide_delayed_def)
next
  case (Signal s)
  then show ?thesis by (simp add: step_def deliver_def hide_delayed_def)
next
  case (Advance d)
  then show ?thesis by (simp add: step_def hide_delayed_def)
qed

lemma hide_DelayedStep: "hide_delayed (step e DelayedStep st) = hide_delayed st"
  by (cases "delayed st") (simp_all add: step_def delayed_goroutine_def prim_defs hide_delayed_def)

lemma hide_exec:
  assumes "hide_delayed st = hide_delayed st'"
  shows "hide_delayed (exec e evs st) =
         hide_delayed (exec e (filter (\<lambda>ev. ev \<noteq> DelayedStep) evs) st')"
  using assms
proof (induction evs arbitrary: st st')
  case Nil
  then show ?case by simp
next
  case (Cons ev evs)
  show ?case
  proof (cases "ev = DelayedStep")
    case True
    from Cons.prems have "hide_delayed (step e DelayedStep st) = hide_delayed st'"
      by (simp add: hide_DelayedStep)
    from Cons.IH [OF this] True show ?thesis by simp
  next
    case False
    have "hide_delayed (step e ev st) = hide_delayed (step e ev (hide_delayed st))"
      by (simp add: hide_step [OF False])
    also have "\<dots> = hide_delayed (step e ev (hide_delayed st'))"
      by (simp add: Cons.prems)
    also have "\<dots> = hide_delayed (step e ev st')"
      by (simp add: hide_step [OF False])
    finally have "hide_delayed (step e ev st) = hide_delayed (step e ev st')" .
    from Cons.IH [OF this] False show ?thesis by simp
  qed
qed

lemma main_not_blocked:
  "pc (exec e evs st) = pc (exec e (filter (\<lambda>ev. ev \<noteq> DelayedStep) evs) st) \<and>
   status (exec e evs st) = status (exec e (filter (\<lambda>ev. ev \<noteq> DelayedStep) evs) st)"
proof -
  have h: "hide_delayed (exec e evs st) =
      hide_delayed (exec e (filter (\<lambda>ev. ev \<noteq> DelayedStep) evs) st)"
    by (rule hide_exec) simp
  have "pc (hide_delayed x) = pc x \<and> status (hide_delayed x) = status x" for x
    by (simp add: hide_delayed_def)
  with h show ?thesis by metis
qed

subsection \<open>The delayed goroutine ends with the start\<close>

lemma start_inv_same:
  assumes "start_inv st" and "trace st' = trace st" and "delayed st' = delayed st"
  shows "start_inv st'"
  using assms by (simp add: start_inv_def)

lemma start_inv_plain:
  assumes "start_inv st" and "trace st' = trace st @ [(t, a)]"
    and "\<forall>ch. a \<noteq> Start SharedInformerFactory ch"
    and "delayed st' = delayed st \<or> delayed st \<noteq> Finished \<and> delayed st' \<noteq> Finished"
  shows "start_inv st'"
  using assms unfolding start_inv_def by auto

lemma start_inv_start:
  assumes "trace st' = trace st @ [(t, Start SharedInformerFactory ch)]"
    and "delayed st' = Finished"
  shows "start_inv st'"
  using assms unfolding start_inv_def by auto

lemma not_spawned_at_L149: "main_inv st \<Longrightarrow> pc st = L149 \<Longrightarrow> delayed st = NotSpawned"
  unfolding main_inv_def by simp

lemma start_inv_Run:
  assumes "main_inv st" and "start_inv st"
  shows "start_inv (Run e st)"
proof -
  from Run_delayed [of e st] consider
    (same) "delayed (Run e st) = delayed st"
    | (go) "pc st = L149" and "delayed (Run e st) = Runnable"
    by blast
  then have d: "delayed (Run e st) = delayed st \<or>
     delayed st \<noteq> Finished \<and> delayed (Run e st) \<noteq> Finished"
  proof cases
    case same
    then show ?thesis by (rule disjI1)
  next
    case go
    from assms(1) go(1) have "delayed st = NotSpawned" by (rule not_spawned_at_L149)
    with go(2) show ?thesis by simp
  qed
  from Run_trace [of e st] consider
    (quiet) "trace (Run e st) = trace st"
    | (app) a where "trace (Run e st) = trace st @ [(now st, a)]"
      and "\<forall>f ch. a \<noteq> Start f ch"
    by blast
  then show ?thesis
  proof cases
    case quiet
    have "delayed (Run e st) = delayed st"
    proof (rule ccontr)
      assume n: "delayed (Run e st) \<noteq> delayed st"
      with Run_delayed [of e st] have "trace (Run e st) = trace st @ [(now st, Go GoDelayed)]"
        by blast
      with quiet show False by simp
    qed
    with assms(2) quiet show ?thesis by (rule start_inv_same)
  next
    case app
    from app(2) have "\<forall>ch. a \<noteq> Start SharedInformerFactory ch" by blast
    with assms(2) app(1) show ?thesis using d by (rule start_inv_plain)
  qed
qed

lemma start_inv_core:
  assumes "start_inv st"
  shows "start_inv (core_goroutine st)"
proof -
  from core_trace [of st] consider
    (quiet) "trace (core_goroutine st) = trace st"
    | (app) "trace (core_goroutine st) =
        trace st @ [(now st, Start CoreSharedInformerFactory (stop st))]"
    by blast
  then show ?thesis
  proof cases
    case quiet
    with assms show ?thesis by (rule start_inv_same) (simp add: core_other)
  next
    case app
    with assms show ?thesis by (rule start_inv_plain) (simp_all add: core_other)
  qed
qed

lemma start_inv_delayed:
  assumes "start_inv st"
  shows "start_inv (delayed_goroutine st)"
proof -
  from delayed_trace [of st] consider
    (quiet) "trace (delayed_goroutine st) = trace st"
      and "delayed (delayed_goroutine st) = delayed st"
    | (sleep) "delayed st = Runnable"
      and "delayed (delayed_goroutine st) = Sleeping (now st + warm_up)"
      and "trace (delayed_goroutine st) = trace st @ [(now st, Sleep warm_up)]"
    | (start) "delayed (delayed_goroutine st) = Finished"
      and "trace (delayed_goroutine st) =
        trace st @ [(now st, Start SharedInformerFactory (stop st))]"
    by blast
  then show ?thesis
  proof cases
    case quiet
    with assms show ?thesis by (rule start_inv_same)
  next
    case sleep
    from assms sleep(3) show ?thesis
      by (rule start_inv_plain) (simp_all add: sleep)
  next
    case start
    from start(2,1) show ?thesis by (rule start_inv_start)
  qed
qed

lemma start_inv_step:
  assumes "main_inv st" and "start_inv st"
  shows "start_inv (step e ev st)"
proof (cases "status st = Running")
  case False
  with assms show ?thesis by (simp add: step_not_Running)
next
  case True
  show ?thesis
  proof (cases ev)
    case MainStep
    with True assms show ?thesis by (simp add: step_def start_inv_Run)
  next
    case CoreStep
    with True assms show ?thesis by (simp add: step_def start_inv_core)
  next
    case DelayedStep
    with True assms show ?thesis by (simp add: step_def start_inv_delayed)
  next
    case (ServerReturn r)
    from assms(2) have "start_inv (server_goroutine r st)"
      by (rule start_inv_same) (simp_all add: server_trace server_other)
    with True ServerReturn show ?thesis by (simp add: step_def)
  next
    case (Signal s)
    from assms(2) have "start_inv (deliver e s st)"
      by (rule start_inv_same) (simp_all add: deliver_trace deliver_other)
    with True Signal show ?thesis by (simp add: step_def)
  next
    case (Advance d)
    from assms(2) have "start_inv (st\<lparr>now := now st + d\<rparr>)"
      by (rule start_inv_same) simp_all
    with True Advance show ?thesis by (simp add: step_def)
  qed
qed

lemma start_inv_exec: "start_inv (exec e evs (init p c))"
proof -
  have "main_inv (exec e evs (init p c)) \<and> start_inv (exec e evs (init p c))"
  proof (rule exec_invariant)
    show "main_inv (init p c) \<and> start_inv (init p c)"
      by (simp add: main_inv_init) (simp add: start_inv_def init_def)
  next
    fix s ev
    assume "main_inv s \<and> start_inv s"
    then show "main_inv (step e ev s) \<and> start_inv (step e ev s)"
      by (simp add: main_inv_step start_inv_step)
  qed
  then show ?thesis by simp
qed

section \<open>The claims\<close>

text \<open>
  C1 claims that the delayed goroutine checks cancellation when its sleep ends and skips
  the start of the shared informer factory. Lines 149-152 hold no such check. In the
  execution below \<open>stop\<close> is closed at 9999999999 ns, the sleep begun at 0 ends at
  10000000000 ns while the process is still running, and the factory is started with the
  closed channel.
\<close>

theorem delayed_start_after_cancel_counterexample:
  "status (exec env0 sched_cancel (init [] flag_defaults)) = Running \<and>
   drop 13 (trace (exec env0 sched_cancel (init [] flag_defaults))) =
     [(0, Sleep 10000000000), (9999999999, Infof_signal 15), (9999999999, CloseStop),
      (10000000000, Start SharedInformerFactory Closed)]"
  by (simp add: sched_cancel_def sched_wait_def run_defs)

text \<open>
  C1, amended. The delayed goroutine does not look at \<open>stop\<close>. In every reachable
  state in which the process runs and the sleep has elapsed, the goroutine's step starts
  the shared informer factory whatever the state of \<open>stop\<close>, passing it the channel as
  it is; in every execution the goroutine has finished exactly when it has made that
  start, so it has no path that skips it. The start is omitted only when the process has
  exited before: after the exit no goroutine does anything.
\<close>

theorem delayed_start_ignores_cancel:
  "(status (exec e evs (init p c)) = Running \<and> delayed (exec e evs (init p c)) = Sleeping w \<and>
    w \<le> now (exec e evs (init p c)) \<longrightarrow>
      trace (step e DelayedStep (exec e evs (init p c))) =
        trace (exec e evs (init p c)) @
          [(now (exec e evs (init p c)),
            Start SharedInformerFactory (stop (exec e evs (init p c))))]) \<and>
   (delayed (exec e evs (init p c)) = Finished \<longleftrightarrow>
      (\<exists>t ch. (t, Start SharedInformerFactory ch) \<in> set (trace (exec e evs (init p c))))) \<and>
   (status (exec e evs (init p c)) \<noteq> Running \<longrightarrow>
      trace (exec e evs' (exec e evs (init p c))) = trace (exec e evs (init p c)))"
proof (intro conjI impI)
  assume "status (exec e evs (init p c)) = Running \<and>
    delayed (exec e evs (init p c)) = Sleeping w \<and> w \<le> now (exec e evs (init p c))"
  then show "trace (step e DelayedStep (exec e evs (init p c))) =
        trace (exec e evs (init p c)) @
          [(now (exec e evs (init p c)),
            Start SharedInformerFactory (stop (exec e evs (init p c))))]"
    by (simp add: step_def delayed_goroutine_def emit_def)
next
  from start_inv_exec [of e evs p c]
  show "delayed (exec e evs (init p c)) = Finished \<longleftrightarrow>
      (\<exists>t ch. (t, Start SharedInformerFactory ch) \<in> set (trace (exec e evs (init p c))))"
    by (simp add: start_inv_def)
next
  assume "status (exec e evs (init p c)) \<noteq> Running"
  then show "trace (exec e evs' (exec e evs (init p c))) = trace (exec e evs (init p c))"
    by (simp add: exec_not_Running)
qed

text \<open>
  The theorem at the state in which the sleep has ended after \<open>stop\<close> was closed, and
  at the state after the main goroutine has returned.
\<close>

theorem delayed_start_ignores_cancel_witness:
  "status (exec env0 sched_wait (init [] flag_defaults)) = Running \<and>
   delayed (exec env0 sched_wait (init [] flag_defaults)) = Sleeping 10000000000 \<and>
   10000000000 \<le> now (exec env0 sched_wait (init [] flag_defaults)) \<and>
   stop (exec env0 sched_wait (init [] flag_defaults)) = Closed \<and>
   trace (step env0 DelayedStep (exec env0 sched_wait (init [] flag_defaults))) =
     trace (exec env0 sched_wait (init [] flag_defaults)) @
       [(10000000000, Start SharedInformerFactory Closed)] \<and>
   status (exec env0 (sched_wait @ [MainStep, MainStep]) (init [] flag_defaults))
     \<noteq> Running \<and>
   trace (exec env0 [DelayedStep]
            (exec env0 (sched_wait @ [MainStep, MainStep]) (init [] flag_defaults))) =
     trace (exec env0 (sched_wait @ [MainStep, MainStep]) (init [] flag_defaults))"
proof -
  let ?S = "exec env0 sched_wait (init [] flag_defaults)"
  let ?T = "exec env0 (sched_wait @ [MainStep, MainStep]) (init [] flag_defaults)"
  have a: "status ?S = Running \<and> delayed ?S = Sleeping 10000000000 \<and> 10000000000 \<le> now ?S"
    by (simp add: state_sched_wait)
  have b: "stop ?S = Closed" "now ?S = 10000000000"
    by (simp_all add: state_sched_wait)
  have c: "status ?T \<noteq> Running"
    by (simp add: exec_append state_sched_wait step_def Run_def emit_def goto_def
        return_from_Run_def)
  from delayed_start_ignores_cancel [of env0 sched_wait "[]" flag_defaults 10000000000 "[]",
      THEN conjunct1] a
  have d: "trace (step env0 DelayedStep ?S) =
      trace ?S @ [(now ?S, Start SharedInformerFactory (stop ?S))]"
    by blast
  from delayed_start_ignores_cancel [of env0 "sched_wait @ [MainStep, MainStep]" "[]"
      flag_defaults 0 "[DelayedStep]", THEN conjunct2, THEN conjunct2] c
  have e: "trace (exec env0 [DelayedStep] ?T) = trace ?T"
    by blast
  from a b c d e show ?thesis by simp
qed



text \<open>
  C3. Handler registration precedes the start of delivery, for every watcher of every
  group. In every execution, wherever the trace holds the start of an informer factory,
  the registration of each watcher of that factory stands at an earlier position: the
  registration call has returned before \<^verbatim>\<open>Start\<close> is invoked. The two factories
  cover all five resource kinds.
\<close>

theorem registration_precedes_delivery:
  "(\<forall>i<length (trace (exec e evs (init p c))). \<forall>f ch.
      snd (trace (exec e evs (init p c)) ! i) = Start f ch \<longrightarrow>
      (\<forall>k\<in>set (watchers f).
         \<exists>j<i. snd (trace (exec e evs (init p c)) ! j) = Register k)) \<and>
   set (watchers CoreSharedInformerFactory) \<union> set (watchers SharedInformerFactory) = UNIV"
proof
  from registered_first_exec [of e evs p c]
  show "\<forall>i<length (trace (exec e evs (init p c))). \<forall>f ch.
      snd (trace (exec e evs (init p c)) ! i) = Start f ch \<longrightarrow>
      (\<forall>k\<in>set (watchers f).
         \<exists>j<i. snd (trace (exec e evs (init p c)) ! j) = Register k)"
    unfolding registered_first_def .
next
  have "k \<in> set (watchers CoreSharedInformerFactory) \<union> set (watchers SharedInformerFactory)"
    for k
    by (cases k) (simp_all add: watchers_def)
  then show "set (watchers CoreSharedInformerFactory) \<union> set (watchers SharedInformerFactory)
      = UNIV"
    by blast
qed

text \<open>The theorem at the start of the shared factory, position 14 of a full start-up.\<close>

theorem registration_precedes_delivery_witness:
  "14 < length (trace (exec env0 sched_start (init [] flag_defaults))) \<and>
   snd (trace (exec env0 sched_start (init [] flag_defaults)) ! 14) =
     Start SharedInformerFactory Open \<and>
   ApisixTLS \<in> set (watchers SharedInformerFactory) \<and>
   (\<exists>j<14. snd (trace (exec env0 sched_start (init [] flag_defaults)) ! j) =
      Register ApisixTLS)"
proof -
  have l: "14 < length (trace (exec env0 sched_start (init [] flag_defaults)))"
    by (simp add: trace_sched_start)
  have s: "snd (trace (exec env0 sched_start (init [] flag_defaults)) ! 14) =
      Start SharedInformerFactory Open"
    by (simp add: trace_sched_start)
  have k: "ApisixTLS \<in> set (watchers SharedInformerFactory)"
    by (simp add: watchers_def)
  from registration_precedes_delivery [of env0 sched_start "[]" flag_defaults,
      THEN conjunct1, rule_format, OF l s k] l s k
  show ?thesis by blast
qed

text \<open>
  C4. The two groups start in a fixed, staggered order. In every execution the
  registrations and the spawns happen in the order of the source: endpoints registered,
  core goroutine spawned, the four custom resources registered, delayed goroutine
  spawned, server goroutine spawned. The core goroutine starts its factory with no delay:
  once spawned, its next step is the start, at the current time. The shared factory is
  started no earlier than the warm-up delay after the delayed goroutine was spawned. The
  delayed goroutine is a separate task that never blocks the main flow: where the main
  goroutine stands and whether the process runs are the same when every step of the
  delayed goroutine is removed from the schedule.
\<close>

theorem staggered_start:
  "(\<exists>n. filter is_startup (acts (exec e evs (init p c))) = take n startup_order) \<and>
   (status (exec e evs (init p c)) = Running \<and> core (exec e evs (init p c)) = Runnable \<longrightarrow>
      trace (step e CoreStep (exec e evs (init p c))) =
        trace (exec e evs (init p c)) @
          [(now (exec e evs (init p c)),
            Start CoreSharedInformerFactory (stop (exec e evs (init p c))))]) \<and>
   (\<forall>t ch. (t, Start SharedInformerFactory ch) \<in> set (trace (exec e evs (init p c))) \<longrightarrow>
      (\<exists>tg. (tg, Go GoDelayed) \<in> set (trace (exec e evs (init p c))) \<and> tg + warm_up \<le> t)) \<and>
   pc (exec e evs (init p c)) =
     pc (exec e (filter (\<lambda>ev. ev \<noteq> DelayedStep) evs) (init p c)) \<and>
   status (exec e evs (init p c)) =
     status (exec e (filter (\<lambda>ev. ev \<noteq> DelayedStep) evs) (init p c))"
proof (intro conjI allI impI)
  from order_exec [of e evs p c]
  show "\<exists>n. filter is_startup (acts (exec e evs (init p c))) = take n startup_order" ..
next
  assume "status (exec e evs (init p c)) = Running \<and> core (exec e evs (init p c)) = Runnable"
  then show "trace (step e CoreStep (exec e evs (init p c))) =
        trace (exec e evs (init p c)) @
          [(now (exec e evs (init p c)),
            Start CoreSharedInformerFactory (stop (exec e evs (init p c))))]"
    by (simp add: core_immediate)
next
  fix t ch
  assume "(t, Start SharedInformerFactory ch) \<in> set (trace (exec e evs (init p c)))"
  with timing_inv_exec [of e evs p c]
  show "\<exists>tg. (tg, Go GoDelayed) \<in> set (trace (exec e evs (init p c))) \<and> tg + warm_up \<le> t"
    by (rule start_after_spawn)
next
  from main_not_blocked [of e evs "init p c"]
  show "pc (exec e evs (init p c)) =
     pc (exec e (filter (\<lambda>ev. ev \<noteq> DelayedStep) evs) (init p c))"
    and "status (exec e evs (init p c)) =
     status (exec e (filter (\<lambda>ev. ev \<noteq> DelayedStep) evs) (init p c))"
    by blast+
qed

text \<open>
  The theorem at the core goroutine while the main goroutine waits, and at the start of
  the shared factory after the warm-up.
\<close>

theorem staggered_start_witness:
  "status (exec env0 sched_ready (init [] flag_defaults)) = Running \<and>
   core (exec env0 sched_ready (init [] flag_defaults)) = Runnable \<and>
   trace (step env0 CoreStep (exec env0 sched_ready (init [] flag_defaults))) =
     trace (exec env0 sched_ready (init [] flag_defaults)) @
       [(0, Start CoreSharedInformerFactory Open)] \<and>
   (10000000000, Start SharedInformerFactory Open)
     \<in> set (trace (exec env0 sched_start (init [] flag_defaults))) \<and>
   (\<exists>tg. (tg, Go GoDelayed) \<in> set (trace (exec env0 sched_start (init [] flag_defaults))) \<and>
      tg + warm_up \<le> 10000000000)"
proof -
  let ?R = "exec env0 sched_ready (init [] flag_defaults)"
  let ?S = "exec env0 sched_start (init [] flag_defaults)"
  have h: "status ?R = Running \<and> core ?R = Runnable"
    by (simp add: state_sched_ready)
  have n: "now ?R = 0" "stop ?R = Open"
    by (simp_all add: sched_ready_def run_defs)
  have m: "(10000000000, Start SharedInformerFactory Open) \<in> set (trace ?S)"
    by (simp add: trace_sched_start)
  from staggered_start [of env0 sched_ready "[]" flag_defaults] h
  have a: "trace (step env0 CoreStep ?R) =
      trace ?R @ [(now ?R, Start CoreSharedInformerFactory (stop ?R))]"
    by blast
  from staggered_start [of env0 sched_start "[]" flag_defaults] m
  have b: "\<exists>tg. (tg, Go GoDelayed) \<in> set (trace ?S) \<and> tg + warm_up \<le> 10000000000"
    by blast
  from h n m a b show ?thesis by simp
qed

text \<open>
  C5. A configuration that cannot be loaded and a logger that cannot be built are fatal
  before anything is started. When \<^verbatim>\<open>--config-path\<close> is given and the loader returns
  an error, the first statement of the main goroutine ends the process with code 1 and
  \<^verbatim>\<open>failed to initialize configuration:\<close> and the error on the error stream; when
  the configuration is there and the logger fails, the second statement does, with
  \<^verbatim>\<open>failed to initialize logging:\<close>. In both cases, under every schedule, no
  message was logged, no watcher registered, no goroutine spawned and no signal
  subscription made, the main goroutine never gets past line 90, and an exit of the
  process is that exit with code 1.
\<close>

theorem startup_failure_is_fatal:
  "(p \<noteq> [] \<and> NewConfigFromFile e p = Inl err \<longrightarrow>
      status (exec e (MainStep # evs) (init p c)) = Exited 1 \<and>
      stderr (exec e (MainStep # evs) (init p c)) =
        ''failed to initialize configuration: '' @ err @ [CHR 0x0A] \<and>
      no_startup (exec e evs (init p c)) \<and>
      (\<forall>n. status (exec e evs (init p c)) = Exited n \<longrightarrow>
         n = 1 \<and> stderr (exec e evs (init p c)) =
           ''failed to initialize configuration: '' @ err @ [CHR 0x0A])) \<and>
   (load_config e p c = Inr c' \<and> NewLogger e (LogLevel c') (LogOutput c') = Some err \<longrightarrow>
      status (exec e (MainStep # MainStep # evs) (init p c)) = Exited 1 \<and>
      stderr (exec e (MainStep # MainStep # evs) (init p c)) =
        ''failed to initialize logging: '' @ err @ [CHR 0x0A] \<and>
      no_startup (exec e evs (init p c)) \<and>
      (\<forall>n. status (exec e evs (init p c)) = Exited n \<longrightarrow>
         n = 1 \<and> stderr (exec e evs (init p c)) =
           ''failed to initialize logging: '' @ err @ [CHR 0x0A]))"
proof (intro conjI impI)
  assume "p \<noteq> [] \<and> NewConfigFromFile e p = Inl err"
  then have a: "p \<noteq> []" "NewConfigFromFile e p = Inl err" by simp_all
  show "status (exec e (MainStep # evs) (init p c)) = Exited 1"
    by (simp only: config_failure_first [OF a]) simp
  show "stderr (exec e (MainStep # evs) (init p c)) =
        ''failed to initialize configuration: '' @ err @ [CHR 0x0A]"
    by (simp only: config_failure_first [OF a]) simp
  from failed_at_exit [OF config_failure_exec [OF a, of evs c]]
  show "no_startup (exec e evs (init p c))"
    and "\<forall>n. status (exec e evs (init p c)) = Exited n \<longrightarrow>
         n = 1 \<and> stderr (exec e evs (init p c)) =
           ''failed to initialize configuration: '' @ err @ [CHR 0x0A]"
    by blast+
next
  assume "load_config e p c = Inr c' \<and> NewLogger e (LogLevel c') (LogOutput c') = Some err"
  then have a: "load_config e p c = Inr c'"
    "NewLogger e (LogLevel c') (LogOutput c') = Some err" by simp_all
  show "status (exec e (MainStep # MainStep # evs) (init p c)) = Exited 1"
    by (simp only: logger_failure_first [OF a]) simp
  show "stderr (exec e (MainStep # MainStep # evs) (init p c)) =
        ''failed to initialize logging: '' @ err @ [CHR 0x0A]"
    by (simp only: logger_failure_first [OF a]) simp
  from failed_at_exit [OF logger_failure_exec [OF a, of evs]]
  show "no_startup (exec e evs (init p c))"
    and "\<forall>n. status (exec e evs (init p c)) = Exited n \<longrightarrow>
         n = 1 \<and> stderr (exec e evs (init p c)) =
           ''failed to initialize logging: '' @ err @ [CHR 0x0A]"
    by blast+
qed

text \<open>The theorem at a missing configuration file, and at a logger that rejects its level.\<close>

theorem startup_failure_is_fatal_witness:
  "''missing.yaml'' \<noteq> [] \<and> NewConfigFromFile env_file ''missing.yaml'' = Inl ''no such file'' \<and>
   status (exec env_file (MainStep # startup) (init ''missing.yaml'' flag_defaults)) = Exited 1 \<and>
   stderr (exec env_file (MainStep # startup) (init ''missing.yaml'' flag_defaults)) =
     ''failed to initialize configuration: no such file'' @ [CHR 0x0A] \<and>
   no_startup (exec env_file startup (init ''missing.yaml'' flag_defaults)) \<and>
   load_config env_nolog [] flag_defaults = Inr flag_defaults \<and>
   NewLogger env_nolog (LogLevel flag_defaults) (LogOutput flag_defaults) =
     Some ''unrecognized level'' \<and>
   status (exec env_nolog (MainStep # MainStep # startup) (init [] flag_defaults)) = Exited 1 \<and>
   stderr (exec env_nolog (MainStep # MainStep # startup) (init [] flag_defaults)) =
     ''failed to initialize logging: unrecognized level'' @ [CHR 0x0A] \<and>
   no_startup (exec env_nolog startup (init [] flag_defaults))"
proof -
  have a: "''missing.yaml'' \<noteq> [] \<and>
      NewConfigFromFile env_file ''missing.yaml'' = Inl ''no such file''"
    by (simp add: env_file_def)
  have b: "load_config env_nolog [] flag_defaults = Inr flag_defaults \<and>
      NewLogger env_nolog (LogLevel flag_defaults) (LogOutput flag_defaults) =
        Some ''unrecognized level''"
    by (simp add: env_nolog_def load_config_def)
  from startup_failure_is_fatal [of "''missing.yaml''" env_file "''no such file''" startup
      flag_defaults flag_defaults] a
  have x: "status (exec env_file (MainStep # startup) (init ''missing.yaml'' flag_defaults))
        = Exited 1 \<and>
      stderr (exec env_file (MainStep # startup) (init ''missing.yaml'' flag_defaults)) =
        ''failed to initialize configuration: '' @ ''no such file'' @ [CHR 0x0A] \<and>
      no_startup (exec env_file startup (init ''missing.yaml'' flag_defaults))"
    by blast
  from startup_failure_is_fatal [of "[]" env_nolog "''unrecognized level''" startup
      flag_defaults flag_defaults] b
  have y: "status (exec env_nolog (MainStep # MainStep # startup) (init [] flag_defaults))
        = Exited 1 \<and>
      stderr (exec env_nolog (MainStep # MainStep # startup) (init [] flag_defaults)) =
        ''failed to initialize logging: '' @ ''unrecognized level'' @ [CHR 0x0A] \<and>
      no_startup (exec env_nolog startup (init [] flag_defaults))"
    by blast
  from a b x y show ?thesis by simp
qed

text \<open>
  C6. An error of the server's \<^verbatim>\<open>Run\<close> is fatal, a clean return is not. In every
  reachable state in which the process runs and the server goroutine is in
  \<^verbatim>\<open>srv.Run(stop)\<close>: when the call returns an error (the address cannot be bound, or
  the server ends abnormally), the process exits with code 1, the error stream holds
  \<^verbatim>\<open>failed to launch API Server:\<close> followed by the error, and the process stays
  exited whatever happens next; when the call returns no error, only the goroutine ends
  and the process keeps running.
\<close>

theorem server_error_is_fatal:
  "status (exec e evs (init p c)) = Running \<and> server (exec e evs (init p c)) = Runnable \<longrightarrow>
     status (step e (ServerReturn (Some err)) (exec e evs (init p c))) = Exited 1 \<and>
     stderr (step e (ServerReturn (Some err)) (exec e evs (init p c))) =
       ''failed to launch API Server: '' @ err @ [CHR 0x0A] \<and>
     status (exec e evs' (step e (ServerReturn (Some err)) (exec e evs (init p c)))) = Exited 1 \<and>
     step e (ServerReturn None) (exec e evs (init p c)) =
       (exec e evs (init p c))\<lparr>server := Finished\<rparr> \<and>
     status (step e (ServerReturn None) (exec e evs (init p c))) = Running"
proof
  let ?S = "exec e evs (init p c)"
  assume a: "status ?S = Running \<and> server ?S = Runnable"
  then have r: "status ?S = Running" and s: "server ?S = Runnable" by simp_all
  from main_inv_exec [of e evs p c] r have q: "stderr ?S = []"
    unfolding main_inv_def by simp
  note f = server_error [OF r s, of e err] server_clean [OF r s, of e]
  from f(1) have x: "status (step e (ServerReturn (Some err)) ?S) = Exited 1" by simp
  from f(1) q have y: "stderr (step e (ServerReturn (Some err)) ?S) =
      ''failed to launch API Server: '' @ err @ [CHR 0x0A]" by simp
  from x have "exec e evs' (step e (ServerReturn (Some err)) ?S) =
      step e (ServerReturn (Some err)) ?S"
    by (intro exec_not_Running) simp
  with x have z: "status (exec e evs' (step e (ServerReturn (Some err)) ?S)) = Exited 1"
    by simp
  from f(2) r have w: "status (step e (ServerReturn None) ?S) = Running" by simp
  from x y z f(2) w show
    "status (step e (ServerReturn (Some err)) ?S) = Exited 1 \<and>
     stderr (step e (ServerReturn (Some err)) ?S) =
       ''failed to launch API Server: '' @ err @ [CHR 0x0A] \<and>
     status (exec e evs' (step e (ServerReturn (Some err)) ?S)) = Exited 1 \<and>
     step e (ServerReturn None) ?S = ?S\<lparr>server := Finished\<rparr> \<and>
     status (step e (ServerReturn None) ?S) = Running"
    by blast
qed

text \<open>The theorem at a bind failure, and at a clean return, while the main goroutine waits.\<close>

theorem server_error_is_fatal_witness:
  "status (exec env0 sched_ready (init [] flag_defaults)) = Running \<and>
   server (exec env0 sched_ready (init [] flag_defaults)) = Runnable \<and>
   status (step env0 (ServerReturn (Some ''listen tcp :8080: bind: address already in use''))
             (exec env0 sched_ready (init [] flag_defaults))) = Exited 1 \<and>
   stderr (step env0 (ServerReturn (Some ''listen tcp :8080: bind: address already in use''))
             (exec env0 sched_ready (init [] flag_defaults))) =
     ''failed to launch API Server: listen tcp :8080: bind: address already in use'' @ [CHR 0x0A] \<and>
   status (step env0 (ServerReturn None) (exec env0 sched_ready (init [] flag_defaults)))
     = Running"
proof -
  have h: "status (exec env0 sched_ready (init [] flag_defaults)) = Running \<and>
      server (exec env0 sched_ready (init [] flag_defaults)) = Runnable"
    by (simp add: state_sched_ready)
  from server_error_is_fatal [of env0 sched_ready "[]" flag_defaults
      "''listen tcp :8080: bind: address already in use''" "[]"] h
  show ?thesis by simp
qed

text \<open>
  C7. The exit code is 0 exactly when the main goroutine has returned from \<^verbatim>\<open>Run\<close>,
  which it does only after a subscribed signal was received and logged, \<open>stop\<close> was
  closed and the exit was logged, with nothing on the error stream. Any other exit code
  is 1, and then the error stream holds one of the diagnostics of \<^verbatim>\<open>dief\<close> followed
  by its argument and a newline. While the process runs, a statement of the main
  goroutine ends it with code 1 exactly when its collaborator call fails, and an error
  of the server's \<^verbatim>\<open>Run\<close> ends it with code 1.
\<close>

theorem exit_codes:
  "(status (exec e evs (init p c)) = Exited 0 \<longleftrightarrow> pc (exec e evs (init p c)) = Returned) \<and>
   (pc (exec e evs (init p c)) = Returned \<longrightarrow>
      stop (exec e evs (init p c)) = Closed \<and>
      CloseStop \<in> set (acts (exec e evs (init p c))) \<and>
      (Infof_signal SIGINT \<in> set (acts (exec e evs (init p c))) \<or>
       Infof_signal SIGTERM \<in> set (acts (exec e evs (init p c)))) \<and>
      Info ''apisix ingress controller exited'' \<in> set (acts (exec e evs (init p c))) \<and>
      stderr (exec e evs (init p c)) = []) \<and>
   (\<forall>n. status (exec e evs (init p c)) = Exited n \<longrightarrow> n = 0 \<or> n = 1) \<and>
   (status (exec e evs (init p c)) = Exited 1 \<longrightarrow>
      (\<exists>m\<in>set diagnostics. \<exists>err. stderr (exec e evs (init p c)) = m @ err @ [CHR 0x0A])) \<and>
   (status (exec e evs (init p c)) = Running \<longrightarrow>
      (status (step e MainStep (exec e evs (init p c))) = Exited 1 \<longleftrightarrow>
         fatal e (exec e evs (init p c))) \<and>
      (server (exec e evs (init p c)) = Runnable \<longrightarrow>
         status (step e (ServerReturn (Some err)) (exec e evs (init p c))) = Exited 1))"
proof -
  let ?S = "exec e evs (init p c)"
  note m = main_inv_exec [of e evs p c, unfolded main_inv_def]
  from m have a: "status ?S = Exited 0 \<longleftrightarrow> pc ?S = Returned" by blast
  have b: "pc ?S = Returned \<longrightarrow>
      stop ?S = Closed \<and> CloseStop \<in> set (acts ?S) \<and>
      (Infof_signal SIGINT \<in> set (acts ?S) \<or> Infof_signal SIGTERM \<in> set (acts ?S)) \<and>
      Info ''apisix ingress controller exited'' \<in> set (acts ?S) \<and> stderr ?S = []"
  proof
    assume r: "pc ?S = Returned"
    then have p: "progress (pc ?S) = 19" by simp
    from r a have "status ?S \<noteq> Exited 1" by simp
    with m have "stderr ?S = []" by blast
    moreover from m p have "stop ?S = Closed" by simp
    moreover from m p have "CloseStop \<in> set (acts ?S)" by simp
    moreover from m p have "Infof_signal SIGINT \<in> set (acts ?S) \<or>
        Infof_signal SIGTERM \<in> set (acts ?S)" by simp
    moreover from m p have "Info ''apisix ingress controller exited'' \<in> set (acts ?S)"
      by simp
    ultimately show "stop ?S = Closed \<and> CloseStop \<in> set (acts ?S) \<and>
      (Infof_signal SIGINT \<in> set (acts ?S) \<or> Infof_signal SIGTERM \<in> set (acts ?S)) \<and>
      Info ''apisix ingress controller exited'' \<in> set (acts ?S) \<and> stderr ?S = []"
      by blast
  qed
  from m have "\<forall>n. status ?S = Exited n \<longrightarrow> n \<le> 1" by blast
  then have c: "\<forall>n. status ?S = Exited n \<longrightarrow> n = 0 \<or> n = 1" by (simp add: le_Suc_eq)
  note d = diagnostic_exec [of e evs p c]
  have f: "status ?S = Running \<longrightarrow>
      (status (step e MainStep ?S) = Exited 1 \<longleftrightarrow> fatal e ?S) \<and>
      (server ?S = Runnable \<longrightarrow> status (step e (ServerReturn (Some err)) ?S) = Exited 1)"
  proof (intro impI conjI)
    assume r: "status ?S = Running"
    from fatal_iff [OF r, of e] r
    show "status (step e MainStep ?S) = Exited 1 \<longleftrightarrow> fatal e ?S"
      by (simp add: step_def)
    assume "server ?S = Runnable"
    with r show "status (step e (ServerReturn (Some err)) ?S) = Exited 1"
      by (simp add: server_error)
  qed
  from a b c d f show ?thesis by blast
qed


text \<open>
  The theorem at a shutdown by SIGTERM, at a missing configuration file, at a logger that
  cannot be built and at a server error during the wait.
\<close>

theorem exit_codes_witness:
  "pc (exec env0 (sched_cancel @ [MainStep, MainStep]) (init [] flag_defaults)) = Returned \<and>
   status (exec env0 (sched_cancel @ [MainStep, MainStep]) (init [] flag_defaults)) = Exited 0 \<and>
   stop (exec env0 (sched_cancel @ [MainStep, MainStep]) (init [] flag_defaults)) = Closed \<and>
   stderr (exec env0 (sched_cancel @ [MainStep, MainStep]) (init [] flag_defaults)) = [] \<and>
   status (exec env_file [MainStep] (init ''missing.yaml'' flag_defaults)) = Exited 1 \<and>
   (\<exists>m\<in>set diagnostics. \<exists>err.
      stderr (exec env_file [MainStep] (init ''missing.yaml'' flag_defaults)) =
        m @ err @ [CHR 0x0A]) \<and>
   status (exec env_nolog [MainStep] (init [] flag_defaults)) = Running \<and>
   fatal env_nolog (exec env_nolog [MainStep] (init [] flag_defaults)) \<and>
   status (step env_nolog MainStep (exec env_nolog [MainStep] (init [] flag_defaults)))
     = Exited 1 \<and>
   status (exec env0 sched_ready (init [] flag_defaults)) = Running \<and>
   server (exec env0 sched_ready (init [] flag_defaults)) = Runnable \<and>
   status (step env0 (ServerReturn (Some ''closed'')) (exec env0 sched_ready (init [] flag_defaults)))
     = Exited 1"
proof -
  let ?A = "exec env0 (sched_cancel @ [MainStep, MainStep]) (init [] flag_defaults)"
  let ?B = "exec env_file [MainStep] (init ''missing.yaml'' flag_defaults)"
  let ?C = "exec env_nolog [MainStep] (init [] flag_defaults)"
  let ?D = "exec env0 sched_ready (init [] flag_defaults)"
  have a: "pc ?A = Returned"
    by (simp add: sched_cancel_def sched_wait_def run_defs)
  have b: "status ?B = Exited 1"
    by (simp add: run_defs)
  have c: "status ?C = Running" "fatal env_nolog ?C"
    by (simp_all add: fatal_def env_nolog_def run_defs)
  have d: "status ?D = Running" "server ?D = Runnable"
    by (simp_all add: state_sched_ready)
  note t = exit_codes [of env0 "sched_cancel @ [MainStep, MainStep]" "[]" flag_defaults]
  from t a have a': "status ?A = Exited 0 \<and> stop ?A = Closed \<and> stderr ?A = []"
    by blast
  from exit_codes [of env_file "[MainStep]" "''missing.yaml''" flag_defaults] b
  have b': "\<exists>m\<in>set diagnostics. \<exists>err. stderr ?B = m @ err @ [CHR 0x0A]"
    by blast
  from exit_codes [of env_nolog "[MainStep]" "[]" flag_defaults] c
  have c': "status (step env_nolog MainStep ?C) = Exited 1"
    by blast
  from exit_codes [of env0 sched_ready "[]" flag_defaults "''closed''"] d
  have d': "status (step env0 (ServerReturn (Some ''closed'')) ?D) = Exited 1"
    by blast
  from a a' b b' c c' d d' show ?thesis by blast
qed

text \<open>
  C8. Only SIGINT and SIGTERM trigger the shutdown path. A delivery of any other signal
  changes nothing in the program: the state stays as it is, or the runtime's default
  disposition for that signal ends the process. In every execution that closes \<open>stop\<close>
  one of the two signals was delivered. When the main goroutine waits at line 50 and one
  of the two arrives, its next two statements log the signal and close \<open>stop\<close>: the
  wait has returned and the main goroutine stands at line 167.
\<close>

theorem only_interrupt_and_terminate:
  "(s \<noteq> SIGINT \<and> s \<noteq> SIGTERM \<longrightarrow>
      step e (Signal s) st = st \<or> step e (Signal s) st = st\<lparr>status := Killed s\<rparr>) \<and>
   (CloseStop \<in> set (acts (exec e evs (init p c))) \<longrightarrow>
      Signal SIGINT \<in> set evs \<or> Signal SIGTERM \<in> set evs) \<and>
   ((s = SIGINT \<or> s = SIGTERM) \<and> status st = Running \<and> pc st = L50 \<and> notified st \<and>
    sigCh st = [] \<and> stop st = Open \<longrightarrow>
      status (exec e [Signal s, MainStep, MainStep] st) = Running \<and>
      pc (exec e [Signal s, MainStep, MainStep] st) = L167 \<and>
      stop (exec e [Signal s, MainStep, MainStep] st) = Closed \<and>
      acts (exec e [Signal s, MainStep, MainStep] st) = acts st @ [Infof_signal s, CloseStop])"
proof (intro conjI impI)
  assume "s \<noteq> SIGINT \<and> s \<noteq> SIGTERM"
  then show "step e (Signal s) st = st \<or> step e (Signal s) st = st\<lparr>status := Killed s\<rparr>"
    by (simp add: other_signal)
next
  assume "CloseStop \<in> set (acts (exec e evs (init p c)))"
  then show "Signal SIGINT \<in> set evs \<or> Signal SIGTERM \<in> set evs"
    by (rule close_needs_signal)
next
  assume a: "(s = SIGINT \<or> s = SIGTERM) \<and> status st = Running \<and> pc st = L50 \<and>
    notified st \<and> sigCh st = [] \<and> stop st = Open"
  then have b: "s = SIGINT \<or> s = SIGTERM" "status st = Running" "pc st = L50"
    "notified st" "sigCh st = []" "stop st = Open" by simp_all
  note r = subscribed_signal [OF b, of e]
  from r show "status (exec e [Signal s, MainStep, MainStep] st) = Running" by blast
  from r show "pc (exec e [Signal s, MainStep, MainStep] st) = L167" by blast
  from r show "stop (exec e [Signal s, MainStep, MainStep] st) = Closed" by blast
  from r show "acts (exec e [Signal s, MainStep, MainStep] st) =
      acts st @ [Infof_signal s, CloseStop]" by blast
qed

text \<open>
  The theorem at signal 1 (SIGHUP) under a runtime that ignores it, at the execution that
  closes \<open>stop\<close>, and at SIGTERM arriving during the wait.
\<close>

theorem only_interrupt_and_terminate_witness:
  "(1::nat) \<noteq> SIGINT \<and> 1 \<noteq> SIGTERM \<and>
   step (env0\<lparr>default_exits := (\<lambda>s. False)\<rparr>) (Signal 1)
     (exec env0 sched_ready (init [] flag_defaults)) =
     exec env0 sched_ready (init [] flag_defaults) \<and>
   CloseStop \<in> set (acts (exec env0 sched_cancel (init [] flag_defaults))) \<and>
   Signal SIGTERM \<in> set sched_cancel \<and>
   stop (exec env0 [Signal SIGTERM, MainStep, MainStep]
          (exec env0 sched_ready (init [] flag_defaults))) = Closed \<and>
   pc (exec env0 [Signal SIGTERM, MainStep, MainStep]
          (exec env0 sched_ready (init [] flag_defaults))) = L167"
proof -
  let ?S = "exec env0 sched_ready (init [] flag_defaults)"
  let ?e = "env0\<lparr>default_exits := (\<lambda>s. False)\<rparr>"
  have n: "(1::nat) \<noteq> SIGINT \<and> 1 \<noteq> SIGTERM" by (simp add: SIGINT_def SIGTERM_def)
  have k: "?S\<lparr>status := Killed 1\<rparr> \<noteq> ?S"
  proof
    assume "?S\<lparr>status := Killed 1\<rparr> = ?S"
    then have "status (?S\<lparr>status := Killed 1\<rparr>) = status ?S" by simp
    then show False by (simp add: state_sched_ready)
  qed
  have d: "step ?e (Signal 1) ?S \<noteq> ?S\<lparr>status := Killed 1\<rparr>"
  proof
    assume "step ?e (Signal 1) ?S = ?S\<lparr>status := Killed 1\<rparr>"
    then have "status (step ?e (Signal 1) ?S) = Killed 1" by simp
    then show False
      by (simp add: step_def deliver_def state_sched_ready SIGINT_def SIGTERM_def)
  qed
  from only_interrupt_and_terminate [of 1 ?e ?S "[]" "[]" flag_defaults, THEN conjunct1] n d
  have a: "step ?e (Signal 1) ?S = ?S" by blast
  have c: "CloseStop \<in> set (acts (exec env0 sched_cancel (init [] flag_defaults)))"
    by (simp add: sched_cancel_def exec_append acts_def trace_sched_wait step_def
        state_sched_wait delayed_goroutine_def emit_def)
  from only_interrupt_and_terminate [of SIGTERM env0 ?S sched_cancel "[]" flag_defaults,
      THEN conjunct2, THEN conjunct1] c
  have b: "Signal SIGINT \<in> set sched_cancel \<or> Signal SIGTERM \<in> set sched_cancel" by blast
  have "Signal SIGINT \<notin> set sched_cancel"
    by (simp add: sched_cancel_def sched_wait_def startup_def SIGINT_def SIGTERM_def)
  with b have b': "Signal SIGTERM \<in> set sched_cancel" by blast
  have h: "(SIGTERM = SIGINT \<or> SIGTERM = SIGTERM) \<and> status ?S = Running \<and> pc ?S = L50 \<and>
      notified ?S \<and> sigCh ?S = [] \<and> stop ?S = Open"
    by (simp add: state_sched_ready)
  from only_interrupt_and_terminate [of SIGTERM env0 ?S "[]" "[]" flag_defaults,
      THEN conjunct2, THEN conjunct2] h
  have r: "stop (exec env0 [Signal SIGTERM, MainStep, MainStep] ?S) = Closed \<and>
      pc (exec env0 [Signal SIGTERM, MainStep, MainStep] ?S) = L167"
    by blast
  from n a c b' r show ?thesis by blast
qed

text \<open>
  C9. The warm-up delay is the constant 10 seconds (10000000000 nanoseconds), whatever
  the configuration. For every environment, configuration path, flag-populated
  configuration and schedule, every sleep of the run lasts exactly that long, and the
  shared factory is started only when a sleep of that length, begun earlier, has elapsed.
\<close>

theorem warm_up_is_ten_seconds:
  "warm_up = 10000000000 \<and>
   (\<forall>t d. (t, Sleep d) \<in> set (trace (exec e evs (init p c))) \<longrightarrow> d = 10000000000) \<and>
   (\<forall>t ch. (t, Start SharedInformerFactory ch) \<in> set (trace (exec e evs (init p c))) \<longrightarrow>
      (\<exists>t0. (t0, Sleep 10000000000) \<in> set (trace (exec e evs (init p c))) \<and>
            t0 + 10000000000 \<le> t))"
proof -
  have w: "warm_up = 10000000000" by (simp add: warm_up_def Second_def)
  from timing_inv_exec [of e evs p c] show ?thesis
    unfolding timing_inv_def w by blast
qed

text \<open>The theorem at a run whose configuration comes from a file.\<close>

theorem warm_up_is_ten_seconds_witness:
  "(10000000000, Start SharedInformerFactory Open)
     \<in> set (trace (exec env_file sched_start (init ''conf.yaml'' flag_defaults))) \<and>
   (\<exists>t0. (t0, Sleep 10000000000)
       \<in> set (trace (exec env_file sched_start (init ''conf.yaml'' flag_defaults))) \<and>
     t0 + 10000000000 \<le> (10000000000::nat))"
proof -
  have m: "(10000000000, Start SharedInformerFactory Open)
     \<in> set (trace (exec env_file sched_start (init ''conf.yaml'' flag_defaults)))"
    by (simp add: sched_start_def run_defs)
  from warm_up_is_ten_seconds [of env_file sched_start "''conf.yaml''" flag_defaults,
      THEN conjunct2, THEN conjunct2, rule_format, OF m] m
  show ?thesis by blast
qed

text \<open>
  C10. The configuration file wholly overrides the flags. When \<^verbatim>\<open>--config-path\<close> is not
  empty and the file loads, the first statement of the run replaces the flag-populated
  configuration by the file's: the run continues exactly as one started from the file's
  configuration, whatever the flags were, and \<open>cfg\<close> is the file's configuration from
  then on. When \<^verbatim>\<open>--config-path\<close> is empty, \<open>cfg\<close> is the flag-populated
  configuration throughout.
\<close>

theorem config_file_overrides_flags:
  "(p \<noteq> [] \<and> NewConfigFromFile e p = Inr c' \<longrightarrow>
      exec e (MainStep # evs) (init p c) = exec e evs ((init p c')\<lparr>pc := L90\<rparr>) \<and>
      cfg (exec e (MainStep # evs) (init p c)) = c') \<and>
   (p = [] \<longrightarrow> cfg (exec e evs (init p c)) = c)"
proof (intro conjI impI)
  assume a: "p \<noteq> [] \<and> NewConfigFromFile e p = Inr c'"
  then have s: "step e MainStep (init p c) = (init p c')\<lparr>pc := L90\<rparr>"
    by (simp add: load_from_file)
  then show "exec e (MainStep # evs) (init p c) = exec e evs ((init p c')\<lparr>pc := L90\<rparr>)"
    by simp
  have "cfg (exec e evs ((init p c')\<lparr>pc := L90\<rparr>)) = cfg ((init p c')\<lparr>pc := L90\<rparr>)"
    by (rule exec_pc_cfg) simp
  with s show "cfg (exec e (MainStep # evs) (init p c)) = c'"
    by (simp add: init_def)
next
  assume "p = []"
  then have "cfg (exec e evs (init p c)) = cfg (init p c)"
    by (intro exec_no_path) (simp add: init_def)
  then show "cfg (exec e evs (init p c)) = c" by (simp add: init_def)
qed

text \<open>The theorem at a file that loads, and at an empty path.\<close>

theorem config_file_overrides_flags_witness:
  "''conf.yaml'' \<noteq> [] \<and> NewConfigFromFile env_file ''conf.yaml'' = Inr file_config \<and>
   cfg (exec env_file (MainStep # startup) (init ''conf.yaml'' flag_defaults)) = file_config \<and>
   cfg (exec env_file startup (init [] flag_defaults)) = flag_defaults"
proof -
  have h: "''conf.yaml'' \<noteq> [] \<and> NewConfigFromFile env_file ''conf.yaml'' = Inr file_config"
    by (simp add: env_file_def)
  from h config_file_overrides_flags [of "''conf.yaml''" env_file file_config startup flag_defaults]
  have a: "cfg (exec env_file (MainStep # startup) (init ''conf.yaml'' flag_defaults)) = file_config"
    by blast
  from config_file_overrides_flags [of "[]" env_file file_config startup flag_defaults]
  have b: "cfg (exec env_file startup (init [] flag_defaults)) = flag_defaults"
    by blast
  from h a b show ?thesis by blast
qed

end
